theory Spec2Isabelle
  imports Main "HOL-Library.Word"
begin

unbundle bit_operations_syntax

section \<open>Data model of the NCP driver\<close>

text \<open>
  The driver keeps its state in two global structs, \<open>gTHCINCPContext\<close>
  (\<open>thci_module_ncp.h\<close>) and \<open>gTHCISDKContext\<close> (\<open>thci_module.h\<close>), and in the file
  statics of the UART unit.  Pointers into \<open>mMessageRingBuffer\<close> are byte offsets from
  \<open>&mMessageRingBuffer[0]\<close>; C integers keep their width as words.
\<close>

type_synonym byte = "8 word"

datatype module_state_t =
    kModuleStateUninitialized
  | kModuleStateInitialized
  | kModuleStateResetRecovery
  | kModuleStateHostSleep

datatype callback_buffer_state_t =
    kCallbackBufferStateFree
  | kCallbackBufferStateScanResult
  | kCallbackBufferStateLegacyUla

text \<open>The static \<open>nl_event_t\<close> objects of the two units, one constructor per object.\<close>

datatype nl_event =
    sOutgoingIPPacketEvent
  | sStateChangeEvent
  | sLegacyUlaChangeEvent
  | sScanResultEvent
  | sScanCompleteEvent
  | sNCPRecoveryEvent
  | sFreeMessageEvent
  | sUartRxDoneEvent

text \<open>
  \<open>thci_message_t\<close>.  A message lives in the ring buffer: \<open>mAddress\<close> is the offset of the
  struct itself (the value of a \<open>thci_message_t *\<close>), and \<open>mBuffer\<close> holds the payload bytes
  written so far behind the header.
\<close>

record thci_message_t =
  mAddress :: nat
  mBuffer :: "byte list"
  mOffset :: "16 word"
  mLength :: "16 word"
  mTotalLength :: "16 word"
  mFlags :: "8 word"

text \<open>
  \<open>thci_ncp_context_t\<close>.  A callback pointer is modelled by whether it is non-NULL; an event
  queue by the events posted to it and not yet taken, oldest first; the lock \<open>mMessageLock\<close>
  by the status that \<open>nl_er_lock_enter\<close> returns for it (0 when the lock is entered).
\<close>

record thci_ncp_context =
  mMessageRingHead :: nat
  mMessageRingTail :: nat
  mMessageRingEndGap :: "16 word"
  mMessageLock :: int
  mWaitFreeQueue :: "nl_event list"
  mWaitFreeQueueEmpty :: bool
  mCallbackBuffers :: "callback_buffer_state_t list"
  mScanResultCallback :: bool
  mStateChangeCallback :: bool
  mTransactionId :: "8 word"
  mModuleState :: module_state_t
  mLastStatus :: "32 word"
  mStateChangeFlags :: "32 word"

subsection \<open>Transaction identifiers\<close>

definition kMaxTransactionId :: "8 word" where
  "kMaxTransactionId = 0x0f"

definition kDontCareTransactionId :: "8 word" where
  "kDontCareTransactionId = 0x01"

definition kEmptyTransactionId :: "8 word" where
  "kEmptyTransactionId = 0x00"

text \<open>
  \<open>GetNewTransactionId\<close>: the sum \<open>mTransactionId + 1\<close> is stored into a \<open>uint8_t\<close>, so it
  wraps at 256; the two comparisons are unsigned.
\<close>

definition GetNewTransactionId :: "thci_ncp_context \<Rightarrow> 8 word \<times> thci_ncp_context" where
  "GetNewTransactionId c =
     (let newId = mTransactionId c + 1;
          kMinTransactionId = kDontCareTransactionId + 1;
          newId = (if newId \<ge> kMaxTransactionId then kMinTransactionId else newId);
          newId = (if newId < kMinTransactionId then kMinTransactionId else newId);
          c' = c\<lparr>mTransactionId := newId\<rparr>
      in (mTransactionId c', c'))"

text \<open>The identifier returned by the call number \<open>k + 1\<close> made from context \<open>c\<close>.\<close>

fun nth_transaction_id :: "nat \<Rightarrow> thci_ncp_context \<Rightarrow> 8 word" where
  "nth_transaction_id 0 c = fst (GetNewTransactionId c)"
| "nth_transaction_id (Suc k) c = nth_transaction_id k (snd (GetNewTransactionId c))"


subsection \<open>Outbound message store\<close>

definition NL_THCI_PAYLOAD_MTU :: nat where
  "NL_THCI_PAYLOAD_MTU = 1280"

definition THCI_CONFIG_NCP_TX_MESSAGE_RING_BUFFER_SIZE :: nat where
  "THCI_CONFIG_NCP_TX_MESSAGE_RING_BUFFER_SIZE = 5 * NL_THCI_PAYLOAD_MTU"

text \<open>
  \<open>sizeof(thci_message_t)\<close> on the 32-bit targets of the driver: a pointer, three
  \<open>uint16_t\<close> and two \<open>uint8_t\<close>.
\<close>

definition sizeof_thci_message_t :: "16 word" where
  "sizeof_thci_message_t = 12"

definition THCI_MESSAGE_FLAG_SECURE :: "8 word" where
  "THCI_MESSAGE_FLAG_SECURE = 0x02"

definition THCI_MESSAGE_FLAG_LEGACY :: "8 word" where
  "THCI_MESSAGE_FLAG_LEGACY = 0x04"

text \<open>
  The two \<open>aLength +=\<close> statements of \<open>NewMessage\<close>: header added, then rounded up to a
  multiple of 4; \<open>aLength\<close> is a \<open>uint16_t\<close>, so both wrap at 65536.
\<close>

definition aligned_length :: "16 word \<Rightarrow> 16 word" where
  "aligned_length aLength =
     (let aLength = aLength + sizeof_thci_message_t
      in aLength + ((4 - (aLength AND (4 - 1))) AND (4 - 1)))"

text \<open>The header initialisation at the end of \<open>NewMessage\<close>, for the struct at \<open>retval\<close>.\<close>

definition init_message :: "nat \<Rightarrow> 16 word \<Rightarrow> bool \<Rightarrow> thci_message_t" where
  "init_message retval aLength aSecurity =
     \<lparr>mAddress = retval, mBuffer = [], mOffset = 0, mLength = 0, mTotalLength = aLength,
      mFlags = (if aSecurity then 0 OR THCI_MESSAGE_FLAG_SECURE else 0)\<rparr>"

text \<open>
  \<open>NewMessage\<close>.  \<open>ringStart\<close> is offset 0 and \<open>ringEnd\<close> the buffer size; \<open>termStart\<close> is
  \<open>None\<close> where the source has NULL.  The result is \<open>None\<close> for a NULL return.
\<close>

definition NewMessage ::
  "bool \<Rightarrow> 16 word \<Rightarrow> thci_ncp_context \<Rightarrow> thci_message_t option \<times> thci_ncp_context" where
  "NewMessage aSecurity aLength c =
     (let ringStart = 0;
          ringEnd = THCI_CONFIG_NCP_TX_MESSAGE_RING_BUFFER_SIZE
      in if mMessageLock c \<noteq> 0 then (None, c)
         else
           let c = (if mMessageRingHead c = mMessageRingTail c
                    then c\<lparr>mMessageRingHead := ringStart, mMessageRingTail := ringStart\<rparr>
                    else c);
               termEnd = (if mMessageRingHead c < mMessageRingTail c
                          then mMessageRingTail c else ringEnd);
               termStart = (if mMessageRingHead c > mMessageRingTail c
                            then Some (mMessageRingTail c) else None);
               aLength = aligned_length aLength
           in if unat aLength + mMessageRingHead c < termEnd
              then (Some (init_message (mMessageRingHead c) aLength aSecurity),
                    c\<lparr>mMessageRingHead := mMessageRingHead c + unat aLength\<rparr>)
              else if termStart \<noteq> None \<and> unat aLength + ringStart < the termStart
              then (Some (init_message ringStart aLength aSecurity),
                    c\<lparr>mMessageRingEndGap := word_of_int (int ringEnd - int (mMessageRingHead c)),
                      mMessageRingHead := ringStart + unat aLength\<rparr>)
              else (None, c))"

text \<open>\<open>FreeMessage\<close>; \<open>None\<close> is a NULL argument.\<close>

definition FreeMessage :: "thci_message_t option \<Rightarrow> thci_ncp_context \<Rightarrow> thci_ncp_context" where
  "FreeMessage aMessage c =
     (case aMessage of
        None \<Rightarrow> c
      | Some m \<Rightarrow>
          let messageHead = mAddress m;
              ringStart = 0;
              ringEnd = THCI_CONFIG_NCP_TX_MESSAGE_RING_BUFFER_SIZE
          in if mMessageLock c \<noteq> 0 then c
             else if \<not> (messageHead = mMessageRingTail c
                         \<or> messageHead + unat (mTotalLength m) = mMessageRingHead c)
             then c
             else
               let c =
                 (if messageHead = mMessageRingTail c
                  then
                    let c = c\<lparr>mMessageRingTail := mMessageRingTail c + unat (mTotalLength m)\<rparr>
                    in if mMessageRingTail c + unat (mMessageRingEndGap c) \<ge> ringEnd
                       then c\<lparr>mMessageRingTail := ringStart, mMessageRingEndGap := 0\<rparr>
                       else c
                  else
                    let c = c\<lparr>mMessageRingHead := messageHead\<rparr>
                    in if mMessageRingHead c = ringStart \<and> mMessageRingEndGap c \<noteq> 0
                       then c\<lparr>mMessageRingHead := ringEnd - unat (mMessageRingEndGap c),
                              mMessageRingEndGap := 0\<rparr>
                       else c)
               in if mWaitFreeQueueEmpty c
                  then c\<lparr>mWaitFreeQueueEmpty := False,
                         mWaitFreeQueue := mWaitFreeQueue c @ [sFreeMessageEvent]\<rparr>
                  else c)"


text \<open>
  The store as \<open>InitializeInternal\<close> leaves it on first entry: head and tail at the buffer
  base, no end-gap, lock and wait-free queue created, callback buffers free.
\<close>

definition initial_context :: thci_ncp_context where
  "initial_context =
     \<lparr>mMessageRingHead = 0, mMessageRingTail = 0, mMessageRingEndGap = 0, mMessageLock = 0,
      mWaitFreeQueue = [], mWaitFreeQueueEmpty = True,
      mCallbackBuffers = replicate 4 kCallbackBufferStateFree,
      mScanResultCallback = False, mStateChangeCallback = False,
      mTransactionId = 0, mModuleState = kModuleStateInitialized,
      mLastStatus = 0, mStateChangeFlags = 0\<rparr>"


text \<open>
  Sequences of store operations under the release discipline.  The live messages are kept
  oldest first: \<open>NewMessage\<close> appends the message it returns, a release hands
  \<open>FreeMessage\<close> either the oldest or the newest live message.
\<close>

datatype store_op = OpNewMessage bool "16 word" | OpFreeOldest | OpFreeNewest

fun store_step ::
  "store_op \<Rightarrow> thci_ncp_context \<times> thci_message_t list
     \<Rightarrow> thci_ncp_context \<times> thci_message_t list" where
  "store_step (OpNewMessage aSecurity aLength) (c, live) =
     (case NewMessage aSecurity aLength c of
        (None, c') \<Rightarrow> (c', live)
      | (Some m, c') \<Rightarrow> (c', live @ [m]))"
| "store_step OpFreeOldest (c, live) =
     (case live of [] \<Rightarrow> (c, live) | m # ms \<Rightarrow> (FreeMessage (Some m) c, ms))"
| "store_step OpFreeNewest (c, live) =
     (if live = [] then (c, live) else (FreeMessage (Some (last live)) c, butlast live))"

fun run_store ::
  "store_op list \<Rightarrow> thci_ncp_context \<times> thci_message_t list
     \<Rightarrow> thci_ncp_context \<times> thci_message_t list" where
  "run_store [] s = s"
| "run_store (x # xs) s = run_store xs (store_step x s)"

text \<open>A request whose length plus header and padding does not wrap the \<open>uint16_t\<close>.\<close>

fun store_op_ok :: "store_op \<Rightarrow> bool" where
  "store_op_ok (OpNewMessage aSecurity aLength) = (unat aLength \<le> 65520)"
| "store_op_ok OpFreeOldest = True"
| "store_op_ok OpFreeNewest = True"

text \<open>Bytes held by the live messages, headers and padding included.\<close>

definition live_bytes :: "thci_message_t list \<Rightarrow> nat" where
  "live_bytes live = sum_list (map (\<lambda>m. unat (mTotalLength m)) live)"

text \<open>Messages laid out back to back from address \<open>a\<close> up to address \<open>b\<close>.\<close>

fun laid_out :: "nat \<Rightarrow> thci_message_t list \<Rightarrow> nat \<Rightarrow> bool" where
  "laid_out a [] b = (a = b)"
| "laid_out a (m # ms) b =
     (mAddress m = a \<and> 0 < unat (mTotalLength m) \<and> laid_out (a + unat (mTotalLength m)) ms b)"

text \<open>
  The shape of the store between operations: either one segment from tail to head and no
  end-gap, or a tail segment that ends at the end-gap followed by a head segment that
  starts at the buffer base.
\<close>

definition store_inv :: "thci_ncp_context \<Rightarrow> thci_message_t list \<Rightarrow> bool" where
  "store_inv c live \<longleftrightarrow>
     mMessageLock c = 0 \<and>
     ((mMessageRingEndGap c = 0 \<and> mMessageRingTail c \<le> mMessageRingHead c
        \<and> mMessageRingHead c < THCI_CONFIG_NCP_TX_MESSAGE_RING_BUFFER_SIZE
        \<and> laid_out (mMessageRingTail c) live (mMessageRingHead c))
      \<or> (mMessageRingEndGap c \<noteq> 0 \<and> mMessageRingHead c < mMessageRingTail c
          \<and> unat (mMessageRingEndGap c) \<le> THCI_CONFIG_NCP_TX_MESSAGE_RING_BUFFER_SIZE
          \<and> (\<exists>ts hs. live = ts @ hs \<and> ts \<noteq> [] \<and> hs \<noteq> []
                \<and> laid_out (mMessageRingTail c) ts
                     (THCI_CONFIG_NCP_TX_MESSAGE_RING_BUFFER_SIZE - unat (mMessageRingEndGap c))
                \<and> laid_out 0 hs (mMessageRingHead c))))"


subsection \<open>Driver state, event queues and the libraries behind the driver\<close>

datatype otDeviceRole =
    OT_DEVICE_ROLE_DISABLED
  | OT_DEVICE_ROLE_DETACHED
  | OT_DEVICE_ROLE_CHILD
  | OT_DEVICE_ROLE_ROUTER
  | OT_DEVICE_ROLE_LEADER

datatype otError =
    OT_ERROR_NONE
  | OT_ERROR_FAILED
  | OT_ERROR_PARSE
  | OT_ERROR_INVALID_ARGS
  | OT_ERROR_INVALID_STATE
  | OT_ERROR_BUSY
  | OT_ERROR_NO_BUFS
  | OT_ERROR_NO_FRAME_RECEIVED

text \<open>
  \<open>thci_message_queue_t\<close> and \<open>thci_sdk_context_t\<close>.  \<open>mSdkQueue\<close> is
  \<open>mInitParams.mSdkQueue\<close>: \<open>None\<close> for a NULL queue, otherwise the events posted and not
  yet taken, oldest first.  \<open>mNetif_THREAD\<close> is \<open>mNetif[THCI_NETIF_TAG_THREAD]\<close>, a
  pointer kept as a number.
\<close>

record thci_message_queue_t =
  mHead :: "16 word"
  mTail :: "16 word"
  mQueue :: "thci_message_t option list"

record thci_sdk_context =
  mSdkQueue :: "nl_event list option"
  mNetif_THREAD :: nat
  mMessageQueue :: thci_message_queue_t
  mInsecureSourcePort :: "16 word"
  mSecurityFlags :: "8 word"
  mDeviceRole :: otDeviceRole
  mStallOutgoingDataPackets :: bool

text \<open>
  The file statics of the UART unit that the receive path reads or writes.
  \<open>sResponseBuffer\<close> stands for the pair \<open>sResponseBuffer\<close>, \<open>sResponseLength\<close>;
  \<open>sResponseQueueHandle\<close>, \<open>sDataFrameCB\<close> and \<open>sControlFrameCB\<close> say whether the pointer
  is non-NULL (the only callbacks ever installed are \<open>ReceiveIp6Datagram\<close> and
  \<open>ReceiveControlFrame\<close>).
\<close>

record uart_statics =
  sProvideInternalResponse :: bool
  sRxEventPostedToResponseQueue :: "8 word"
  sRxEventPostedToSdkQueue :: "8 word"
  sResponseQueueHandle :: bool
  sResponseCommand :: "8 word"
  sResponseKey :: "32 word"
  sResponseBuffer :: "byte list"
  sResponseReceived :: bool
  sResponseTransactionId :: "8 word"
  sResponseSuccess :: bool
  sDecodeFailure :: bool
  sDataFrameCB :: bool
  sControlFrameCB :: bool

text \<open>Calls that leave the driver: client callbacks and datagrams handed to the IP stack.\<close>

datatype upcall =
    StateChangeCallback "32 word"
  | TcpipInput "byte list"

record thci =
  gTHCINCPContext :: thci_ncp_context
  gTHCISDKContext :: thci_sdk_context
  uart :: uart_statics
  sOutgoingIPPacketEventPosted :: "8 word"
  mCallbackContent :: "byte list list"
  upcalls :: "upcall list"

text \<open>
  Functions of the libraries the driver is linked against, which are not part of this
  repository: the Spinel codec and the pbuf pool of the IP stack.  Each \<open>unpack\<close> field is
  \<open>spinel_datatype_unpack\<close> at one format string (\<open>CiiD\<close>, \<open>i\<close>, \<open>C\<close>, \<open>D\<close>, \<open>D.\<close>
  and \<open>U\<close>); it returns the parsed length and what the output variables hold after the
  call.  \<open>pbuf_alloc\<close> says whether the pool has a buffer of the given size, and
  \<open>pbuf_stale\<close> is what a fresh buffer holds behind the bytes copied into it.
\<close>

record platform =
  unpack_frame :: "byte list \<Rightarrow> int \<times> 8 word \<times> 32 word \<times> 32 word \<times> byte list"
  unpack_uint_packed :: "byte list \<Rightarrow> int \<times> 32 word"
  unpack_uint8 :: "byte list \<Rightarrow> int \<times> 32 word"
  unpack_data :: "byte list \<Rightarrow> int \<times> byte list"
  unpack_data_only :: "byte list \<Rightarrow> int \<times> byte list"
  unpack_utf8 :: "byte list \<Rightarrow> int \<times> byte list option"
  pbuf_alloc :: "nat \<Rightarrow> bool"
  pbuf_stale :: "nat \<Rightarrow> byte"

text \<open>
  Constants of \<open>openthread/spinel.h\<close> and \<open>openthread/types.h\<close>, which are outside this
  repository.
\<close>

definition SPINEL_CMD_PROP_VALUE_GET :: "32 word" where "SPINEL_CMD_PROP_VALUE_GET = 2"
definition SPINEL_CMD_PROP_VALUE_SET :: "32 word" where "SPINEL_CMD_PROP_VALUE_SET = 3"
definition SPINEL_CMD_PROP_VALUE_IS :: "32 word" where "SPINEL_CMD_PROP_VALUE_IS = 6"
definition SPINEL_CMD_PROP_VALUE_INSERTED :: "32 word" where "SPINEL_CMD_PROP_VALUE_INSERTED = 7"

definition SPINEL_PROP_LAST_STATUS :: "32 word" where "SPINEL_PROP_LAST_STATUS = 0"
definition SPINEL_PROP_NCP_VERSION :: "32 word" where "SPINEL_PROP_NCP_VERSION = 2"
definition SPINEL_PROP_MAC_SCAN_STATE :: "32 word" where "SPINEL_PROP_MAC_SCAN_STATE = 0x30"
definition SPINEL_PROP_MAC_SCAN_BEACON :: "32 word" where "SPINEL_PROP_MAC_SCAN_BEACON = 0x33"
definition SPINEL_PROP_NET_ROLE :: "32 word" where "SPINEL_PROP_NET_ROLE = 0x43"
definition SPINEL_PROP_THREAD_CHILD_TABLE :: "32 word" where
  "SPINEL_PROP_THREAD_CHILD_TABLE = 0x52"
definition SPINEL_PROP_IPV6_ADDRESS_TABLE :: "32 word" where
  "SPINEL_PROP_IPV6_ADDRESS_TABLE = 0x63"
definition SPINEL_PROP_IPV6_MULTICAST_ADDRESS_TABLE :: "32 word" where
  "SPINEL_PROP_IPV6_MULTICAST_ADDRESS_TABLE = 0x66"
definition SPINEL_PROP_STREAM_DEBUG :: "32 word" where "SPINEL_PROP_STREAM_DEBUG = 0x70"
definition SPINEL_PROP_STREAM_NET :: "32 word" where "SPINEL_PROP_STREAM_NET = 0x72"
definition SPINEL_PROP_STREAM_NET_INSECURE :: "32 word" where
  "SPINEL_PROP_STREAM_NET_INSECURE = 0x73"
definition SPINEL_PROP_NEST_LEGACY_ULA_PREFIX :: "32 word" where
  "SPINEL_PROP_NEST_LEGACY_ULA_PREFIX = 15297"

definition SPINEL_STATUS_RESET__BEGIN :: "32 word" where "SPINEL_STATUS_RESET__BEGIN = 112"
definition SPINEL_STATUS_RESET__END :: "32 word" where "SPINEL_STATUS_RESET__END = 128"

definition SPINEL_NET_ROLE_CHILD :: "32 word" where "SPINEL_NET_ROLE_CHILD = 1"
definition SPINEL_NET_ROLE_ROUTER :: "32 word" where "SPINEL_NET_ROLE_ROUTER = 2"
definition SPINEL_NET_ROLE_LEADER :: "32 word" where "SPINEL_NET_ROLE_LEADER = 3"

definition OT_CHANGED_IP6_ADDRESS_ADDED :: "32 word" where
  "OT_CHANGED_IP6_ADDRESS_ADDED = push_bit 0 1"
definition OT_CHANGED_THREAD_ROLE :: "32 word" where
  "OT_CHANGED_THREAD_ROLE = push_bit 2 1"
definition OT_CHANGED_IP6_MULTICAST_SUBSRCRIBED :: "32 word" where
  "OT_CHANGED_IP6_MULTICAST_SUBSRCRIBED = push_bit 12 1"

text \<open>\<open>SPINEL_HEADER_GET_TID\<close>: the low four bits of the header.\<close>

definition SPINEL_HEADER_GET_TID :: "8 word \<Rightarrow> 8 word" where
  "SPINEL_HEADER_GET_TID x = drop_bit 0 (x AND 0x0f)"

text \<open>
  \<open>nl_eventqueue_post_event\<close> on \<open>mInitParams.mSdkQueue\<close>.  The queue is not bounded in
  the model, and a post to a NULL queue leaves the state as it is.
\<close>

definition post_to_mSdkQueue :: "nl_event \<Rightarrow> thci \<Rightarrow> thci" where
  "post_to_mSdkQueue ev s =
     (case mSdkQueue (gTHCISDKContext s) of
        None \<Rightarrow> s
      | Some q \<Rightarrow> s\<lparr>gTHCISDKContext := (gTHCISDKContext s)\<lparr>mSdkQueue := Some (q @ [ev])\<rparr>\<rparr>)"

subsection \<open>Session supervisor: recovery\<close>

definition thciInitiateNCPRecovery :: "thci \<Rightarrow> thci" where
  "thciInitiateNCPRecovery s =
     (if \<not> (mModuleState (gTHCINCPContext s) \<noteq> kModuleStateResetRecovery) then s
      else
        let s = s\<lparr>gTHCINCPContext :=
                   (gTHCINCPContext s)\<lparr>mModuleState := kModuleStateResetRecovery\<rparr>\<rparr>
        in if mSdkQueue (gTHCISDKContext s) \<noteq> None
           then post_to_mSdkQueue sNCPRecoveryEvent s
           else s)"

text \<open>
  \<open>HandleLastStatusUpdate\<close>.  The test \<open>if (parsedLength)\<close> is on a non-zero length, and
  the range test reads \<open>status\<close> whether or not the unpack stored into it.
\<close>

definition HandleLastStatusUpdate :: "platform \<Rightarrow> byte list \<Rightarrow> thci \<Rightarrow> thci" where
  "HandleLastStatusUpdate pf aArgPtr s =
     (let (parsedLength, status) = unpack_uint_packed pf aArgPtr;
          s = (if parsedLength \<noteq> 0
               then s\<lparr>gTHCINCPContext := (gTHCINCPContext s)\<lparr>mLastStatus := status\<rparr>\<rparr>
               else s)
      in if status \<ge> SPINEL_STATUS_RESET__BEGIN \<and> status \<le> SPINEL_STATUS_RESET__END
         then thciInitiateNCPRecovery s
         else s)"

subsection \<open>Control-plane dispatch\<close>

definition TranslateSpinelRole :: "32 word \<Rightarrow> otDeviceRole" where
  "TranslateSpinelRole aRole =
     (if aRole = SPINEL_NET_ROLE_CHILD then OT_DEVICE_ROLE_CHILD
      else if aRole = SPINEL_NET_ROLE_ROUTER then OT_DEVICE_ROLE_ROUTER
      else if aRole = SPINEL_NET_ROLE_LEADER then OT_DEVICE_ROLE_LEADER
      else OT_DEVICE_ROLE_DETACHED)"

text \<open>
  \<open>AllocateCallbackBuffer\<close>: the index of the first free buffer, marked with \<open>aState\<close>, or
  \<open>None\<close> for NULL.
\<close>

fun first_free :: "callback_buffer_state_t list \<Rightarrow> nat \<Rightarrow> nat option" where
  "first_free [] i = None"
| "first_free (b # bs) i =
     (if b = kCallbackBufferStateFree then Some i else first_free bs (Suc i))"

definition AllocateCallbackBuffer :: "callback_buffer_state_t \<Rightarrow> thci \<Rightarrow> nat option \<times> thci" where
  "AllocateCallbackBuffer aState s =
     (case first_free (mCallbackBuffers (gTHCINCPContext s)) 0 of
        None \<Rightarrow> (None, s)
      | Some i \<Rightarrow>
          (Some i,
           s\<lparr>gTHCINCPContext := (gTHCINCPContext s)
                \<lparr>mCallbackBuffers := (mCallbackBuffers (gTHCINCPContext s))[i := aState]\<rparr>\<rparr>))"

definition or_mStateChangeFlags :: "32 word \<Rightarrow> thci \<Rightarrow> thci" where
  "or_mStateChangeFlags f s =
     s\<lparr>gTHCINCPContext := (gTHCINCPContext s)
          \<lparr>mStateChangeFlags := mStateChangeFlags (gTHCINCPContext s) OR f\<rparr>\<rparr>"

text \<open>
  The \<open>switch\<close> of \<open>ReceiveControlFrame\<close> for \<open>SPINEL_CMD_PROP_VALUE_IS\<close>, on the key cast
  to \<open>uint16_t\<close>.  The result says whether control reaches the end of the \<open>switch\<close>
  (\<open>True\<close>) or leaves by \<open>goto done\<close> (\<open>False\<close>).  The child-table and debug-stream cases
  only write to the log.  The content of a callback buffer is kept as the frame arguments it
  was filled from.
\<close>

definition prop_value_is_switch ::
  "platform \<Rightarrow> 32 word \<Rightarrow> byte list \<Rightarrow> thci \<Rightarrow> bool \<times> thci" where
  "prop_value_is_switch pf aKey aArgPtr s =
     (let key16 = (ucast aKey :: 16 word)
      in if key16 = ucast SPINEL_PROP_LAST_STATUS
         then (True, HandleLastStatusUpdate pf aArgPtr s)
         else if key16 = ucast SPINEL_PROP_NET_ROLE
         then
           (let (parsedLength, spinelRole) = unpack_uint8 pf aArgPtr
            in if \<not> parsedLength > 0 then (False, s)
               else
                 (True,
                  or_mStateChangeFlags OT_CHANGED_THREAD_ROLE
                    (s\<lparr>gTHCISDKContext := (gTHCISDKContext s)
                         \<lparr>mDeviceRole := TranslateSpinelRole spinelRole\<rparr>\<rparr>)))
         else if key16 = ucast SPINEL_PROP_NEST_LEGACY_ULA_PREFIX
         then
           (case AllocateCallbackBuffer kCallbackBufferStateLegacyUla s of
              (None, s) \<Rightarrow> (False, s)
            | (Some i, s) \<Rightarrow>
                let (parsedLength, legacyUlaPrefix) = unpack_data pf aArgPtr
                in if \<not> parsedLength > 0 then (False, s)
                   else
                     (True,
                      post_to_mSdkQueue sLegacyUlaChangeEvent
                        (s\<lparr>mCallbackContent := (mCallbackContent s)[i := aArgPtr]\<rparr>)))
         else if key16 = ucast SPINEL_PROP_MAC_SCAN_STATE
         then (True, post_to_mSdkQueue sScanCompleteEvent s)
         else if key16 = ucast SPINEL_PROP_THREAD_CHILD_TABLE
         then (True, s)
         else if key16 = ucast SPINEL_PROP_IPV6_ADDRESS_TABLE
         then (True, or_mStateChangeFlags OT_CHANGED_IP6_ADDRESS_ADDED s)
         else if key16 = ucast SPINEL_PROP_IPV6_MULTICAST_ADDRESS_TABLE
         then (True, or_mStateChangeFlags OT_CHANGED_IP6_MULTICAST_SUBSRCRIBED s)
         else if key16 = ucast SPINEL_PROP_STREAM_DEBUG
         then (True, s)
         else (True, s))"

definition ReceiveControlFrame ::
  "platform \<Rightarrow> 8 word \<Rightarrow> 32 word \<Rightarrow> 32 word \<Rightarrow> byte list \<Rightarrow> thci \<Rightarrow> thci" where
  "ReceiveControlFrame pf aHeader aCommand aKey aArgPtr s =
     (let prevStateFlags = mStateChangeFlags (gTHCINCPContext s)
      in if aCommand = SPINEL_CMD_PROP_VALUE_IS
         then
           (case prop_value_is_switch pf aKey aArgPtr s of
              (False, s) \<Rightarrow> s
            | (True, s) \<Rightarrow>
                if prevStateFlags = 0 \<and> mStateChangeFlags (gTHCINCPContext s) \<noteq> 0
                then post_to_mSdkQueue sStateChangeEvent s
                else s)
         else if aCommand = SPINEL_CMD_PROP_VALUE_INSERTED
         then
           (if aKey = SPINEL_PROP_MAC_SCAN_BEACON
            then
              (if mScanResultCallback (gTHCINCPContext s)
               then
                 (case AllocateCallbackBuffer kCallbackBufferStateScanResult s of
                    (None, s) \<Rightarrow> s
                  | (Some i, s) \<Rightarrow>
                      post_to_mSdkQueue sScanResultEvent
                        (s\<lparr>mCallbackContent := (mCallbackContent s)[i := aArgPtr]\<rparr>))
               else s)
            else s)
         else s)"

definition StateChangeEventHandler :: "thci \<Rightarrow> thci" where
  "StateChangeEventHandler s =
     (if mStateChangeCallback (gTHCINCPContext s)
      then
        let flags = mStateChangeFlags (gTHCINCPContext s);
            s = s\<lparr>gTHCINCPContext := (gTHCINCPContext s)\<lparr>mStateChangeFlags := 0\<rparr>\<rparr>
        in s\<lparr>upcalls := upcalls s @ [StateChangeCallback flags]\<rparr>
      else s)"



subsection \<open>Inbound datagrams\<close>

definition THCI_SECURITY_FLAG_THREAD_STARTED :: "8 word" where
  "THCI_SECURITY_FLAG_THREAD_STARTED = 0x01"
definition THCI_SECURITY_FLAG_INSECURE_PORTS_ENABLED :: "8 word" where
  "THCI_SECURITY_FLAG_INSECURE_PORTS_ENABLED = 0x02"
definition THCI_SECURITY_FLAG_INSECURE_SOURCE_PORT :: "8 word" where
  "THCI_SECURITY_FLAG_INSECURE_SOURCE_PORT = 0x04"
definition THCI_SECURITY_FLAG_SECURE_MSG_RXD_ON_INSECURE_PORT :: "8 word" where
  "THCI_SECURITY_FLAG_SECURE_MSG_RXD_ON_INSECURE_PORT = 0x08"

text \<open>\<open>IP6_NEXTH_TCP\<close> of the IP stack, and the size of its \<open>struct ip6_hdr\<close>.\<close>

definition IP6_NEXTH_TCP :: byte where "IP6_NEXTH_TCP = 6"
definition sizeof_ip6_hdr :: nat where "sizeof_ip6_hdr = 40"

definition NeedToOpenInsecureSourcePort :: "thci_sdk_context \<Rightarrow> bool" where
  "NeedToOpenInsecureSourcePort c =
     (\<not> (mSecurityFlags c AND THCI_SECURITY_FLAG_THREAD_STARTED \<noteq> 0)
      \<and> (mSecurityFlags c AND THCI_SECURITY_FLAG_INSECURE_PORTS_ENABLED \<noteq> 0)
      \<and> \<not> (mSecurityFlags c AND THCI_SECURITY_FLAG_INSECURE_SOURCE_PORT \<noteq> 0))"

definition SendProvisionalJoinResponseInsecurely :: "thci_sdk_context \<Rightarrow> bool" where
  "SendProvisionalJoinResponseInsecurely c =
     ((mSecurityFlags c AND THCI_SECURITY_FLAG_THREAD_STARTED \<noteq> 0)
      \<and> (mSecurityFlags c AND THCI_SECURITY_FLAG_INSECURE_PORTS_ENABLED \<noteq> 0)
      \<and> \<not> (mSecurityFlags c AND THCI_SECURITY_FLAG_SECURE_MSG_RXD_ON_INSECURE_PORT \<noteq> 0))"

text \<open>Byte \<open>i\<close> of a pbuf payload into which \<open>bs\<close> was copied.\<close>

definition pbuf_byte :: "platform \<Rightarrow> byte list \<Rightarrow> nat \<Rightarrow> byte" where
  "pbuf_byte pf bs i = (if i < length bs then bs ! i else pbuf_stale pf i)"

text \<open>\<open>lwip_ntohs\<close> of two bytes in memory order.\<close>

definition ntohs_bytes :: "byte \<Rightarrow> byte \<Rightarrow> 16 word" where
  "ntohs_bytes hi lo = push_bit 8 (ucast hi) OR ucast lo"

text \<open>
  \<open>ReceiveIp6Datagram\<close>, in the configuration without legacy alarm support.  The datagram
  handed to \<open>tcpip_input\<close> is recorded as an upcall.
\<close>

definition ReceiveIp6Datagram ::
  "platform \<Rightarrow> 32 word \<Rightarrow> 32 word \<Rightarrow> byte list \<Rightarrow> thci \<Rightarrow> thci" where
  "ReceiveIp6Datagram pf aCommand aKey aBuf s =
     (let isSecure = (aKey \<noteq> SPINEL_PROP_STREAM_NET_INSECURE);
          (parsedLength, argPtr) = unpack_data_only pf aBuf
      in if parsedLength \<noteq> int (length aBuf) then s
         else if \<not> pbuf_alloc pf (length argPtr) then s
         else
           let s =
             (if isSecure \<and> SendProvisionalJoinResponseInsecurely (gTHCISDKContext s)
              then
                (if pbuf_byte pf argPtr 6 = IP6_NEXTH_TCP
                 then
                   let dstPort = ntohs_bytes (pbuf_byte pf argPtr (sizeof_ip6_hdr + 2))
                                             (pbuf_byte pf argPtr (sizeof_ip6_hdr + 2 + 1))
                   in if dstPort = mInsecureSourcePort (gTHCISDKContext s)
                      then s\<lparr>gTHCISDKContext := (gTHCISDKContext s)
                             \<lparr>mSecurityFlags := mSecurityFlags (gTHCISDKContext s)
                                OR THCI_SECURITY_FLAG_SECURE_MSG_RXD_ON_INSECURE_PORT\<rparr>\<rparr>
                      else s
                 else s)
              else s)
           in s\<lparr>upcalls := upcalls s @ [TcpipInput argPtr]\<rparr>)"

subsection \<open>Transaction matcher\<close>

definition MAX_NCP_APP_RESPONSE_TIME_MSEC :: nat where
  "MAX_NCP_APP_RESPONSE_TIME_MSEC = 3000"

text \<open>
  \<open>CompareResponse\<close>.  \<open>sResponseCommand\<close> is a \<open>uint8_t\<close> and is widened for the comparison
  with the \<open>unsigned int\<close> command of the frame.
\<close>

definition CompareResponse ::
  "8 word \<Rightarrow> 32 word \<Rightarrow> 32 word \<Rightarrow> uart_statics \<Rightarrow> bool \<times> uart_statics" where
  "CompareResponse aHeader aCommand aKey u =
     (if sResponseTransactionId u \<noteq> kDontCareTransactionId
      then
        (if SPINEL_HEADER_GET_TID aHeader = sResponseTransactionId u
         then
           (True,
            if ucast (sResponseCommand u) = aCommand \<and> sResponseKey u = aKey
            then u\<lparr>sResponseSuccess := True\<rparr>
            else u)
         else (False, u))
      else if ucast (sResponseCommand u) = aCommand \<and> sResponseKey u = aKey
      then (True, u\<lparr>sResponseSuccess := True\<rparr>)
      else (False, u))"

text \<open>
  \<open>HandleFrame\<close>, the frame handler of the HDLC decoder.  \<open>CompareResponse\<close> is only called
  when \<open>sProvideInternalResponse\<close> is set, as the \<open>&&\<close> of the source has it.
\<close>

definition HandleFrame :: "platform \<Rightarrow> byte list \<Rightarrow> thci \<Rightarrow> thci" where
  "HandleFrame pf aBuf s =
     (let (parsedLength, header, command, key, argPtr) = unpack_frame pf aBuf
      in if parsedLength \<noteq> int (length aBuf) then s
         else if sProvideInternalResponse (uart s)
                 \<and> fst (CompareResponse header command key (uart s))
         then
           let u = snd (CompareResponse header command key (uart s));
               s = s\<lparr>uart := u\<lparr>sResponseReceived := True, sResponseBuffer := argPtr\<rparr>\<rparr>
           in if \<not> sResponseSuccess (uart s) \<and> key = SPINEL_PROP_LAST_STATUS
              then HandleLastStatusUpdate pf argPtr s
              else s
         else if key = SPINEL_PROP_STREAM_NET \<or> key = SPINEL_PROP_STREAM_NET_INSECURE
         then (if sDataFrameCB (uart s) then ReceiveIp6Datagram pf command key argPtr s else s)
         else (if sControlFrameCB (uart s)
               then ReceiveControlFrame pf header command key argPtr s
               else s))"

text \<open>\<open>HandleError\<close>, the error handler of the HDLC decoder.\<close>

definition HandleError :: "thci \<Rightarrow> thci" where
  "HandleError s =
     thciInitiateNCPRecovery
       (s\<lparr>uart := (uart s)\<lparr>sResponseSuccess := False, sResponseReceived := True,
                             sDecodeFailure := True\<rparr>\<rparr>)"

text \<open>
  What the HDLC decoder (a library outside this repository) makes of the bytes in the
  receive FIFO: a sequence of calls of its frame handler and its error handler.
\<close>

datatype rx_event = FrameDecoded "byte list" | DecodeError

fun Decode :: "platform \<Rightarrow> rx_event \<Rightarrow> thci \<Rightarrow> thci" where
  "Decode pf (FrameDecoded aBuf) s = HandleFrame pf aBuf s"
| "Decode pf DecodeError s = HandleError s"

text \<open>
  \<open>UartRxFifoProcess\<close> on a FIFO whose bytes decode to the given events.  The source tests
  its loop condition before every byte; the two flags change only inside the handlers, so
  testing before every event is the same.
\<close>

fun UartRxFifoProcess :: "platform \<Rightarrow> rx_event list \<Rightarrow> thci \<Rightarrow> thci" where
  "UartRxFifoProcess pf [] s = s"
| "UartRxFifoProcess pf (e # es) s =
     (if \<not> sDecodeFailure (uart s) \<and> \<not> sResponseReceived (uart s)
      then UartRxFifoProcess pf es (Decode pf e s)
      else s)"

definition PostRxDoneEventToSdkQueue :: "bool \<Rightarrow> thci \<Rightarrow> thci" where
  "PostRxDoneEventToSdkQueue aFromISR s =
     (if mSdkQueue (gTHCISDKContext s) \<noteq> None
      then
        (if aFromISR
         then
           (if sRxEventPostedToSdkQueue (uart s) = 0
            then post_to_mSdkQueue sUartRxDoneEvent
                   (s\<lparr>uart := (uart s)\<lparr>sRxEventPostedToSdkQueue := 1\<rparr>\<rparr>)
            else s)
         else
           (let old = sRxEventPostedToSdkQueue (uart s);
                s = s\<lparr>uart := (uart s)\<lparr>sRxEventPostedToSdkQueue := old OR 1\<rparr>\<rparr>
            in if old = 0 then post_to_mSdkQueue sUartRxDoneEvent s else s))
      else s)"

text \<open>
  The wait loop of \<open>thciUartWaitForResponseInternal\<close> when a response queue exists.  Each
  element of the list is one pass through the loop body: whether
  \<open>nl_eventqueue_get_event_with_timeout\<close> returned an event, and the events the FIFO
  decodes to in that pass.  The list ends where the queue times out with the FIFO empty.
  The result is \<open>retval\<close> and, where they were written, \<open>*aBuffer\<close> with \<open>*aLength\<close>.
\<close>

fun wait_on_response_queue ::
  "platform \<Rightarrow> (bool \<times> rx_event list) list \<Rightarrow> thci \<Rightarrow> otError \<times> byte list option \<times> thci" where
  "wait_on_response_queue pf [] s = (OT_ERROR_NO_FRAME_RECEIVED, None, s)"
| "wait_on_response_queue pf ((theEvent, fifo) # rx) s =
     (let s = (if theEvent then s\<lparr>uart := (uart s)\<lparr>sRxEventPostedToResponseQueue := 0\<rparr>\<rparr>
               else s);
          s = UartRxFifoProcess pf fifo s
      in if sResponseReceived (uart s)
         then (if sResponseSuccess (uart s) then OT_ERROR_NONE else OT_ERROR_FAILED,
               Some (sResponseBuffer (uart s)), s)
         else wait_on_response_queue pf rx s)"

text \<open>
  The polling loop used without a response queue: \<open>numFractions\<close> passes, each looking at
  what the FIFO holds at that moment (nothing once the list is used up).
\<close>

fun wait_polling ::
  "platform \<Rightarrow> nat \<Rightarrow> (bool \<times> rx_event list) list \<Rightarrow> thci
     \<Rightarrow> otError \<times> byte list option \<times> thci" where
  "wait_polling pf 0 rx s = (OT_ERROR_NO_FRAME_RECEIVED, None, s)"
| "wait_polling pf (Suc n) rx s =
     (let fifo = (case rx of [] \<Rightarrow> [] | (theEvent, fifo) # _ \<Rightarrow> fifo);
          s = (if fifo \<noteq> [] then UartRxFifoProcess pf fifo s else s)
      in if sResponseReceived (uart s)
         then (if sResponseSuccess (uart s) then OT_ERROR_NONE else OT_ERROR_FAILED,
               Some (sResponseBuffer (uart s)), s)
         else wait_polling pf n (tl rx) s)"

text \<open>
  \<open>thciUartWaitForResponseInternal\<close>.  \<open>rx\<close> is what arrives before the deadline, as above;
  \<open>leftover\<close> says whether an event is found in the response queue after the loop.
\<close>

definition thciUartWaitForResponseInternal ::
  "platform \<Rightarrow> bool \<Rightarrow> 8 word \<Rightarrow> 8 word \<Rightarrow> 32 word \<Rightarrow> (bool \<times> rx_event list) list \<Rightarrow> bool
     \<Rightarrow> thci \<Rightarrow> otError \<times> byte list option \<times> thci" where
  "thciUartWaitForResponseInternal pf aAvoidNCPRecovery aTransactionID aCommand aKey rx leftover s =
     (let timeoutMsec = MAX_NCP_APP_RESPONSE_TIME_MSEC;
          (retval, aBuffer, s) =
            (if sDecodeFailure (uart s) then (OT_ERROR_NO_FRAME_RECEIVED, None, s)
             else
               let s = s\<lparr>uart := (uart s)
                          \<lparr>sResponseTransactionId := aTransactionID,
                           sResponseCommand := aCommand,
                           sResponseKey := aKey,
                           sResponseSuccess := False,
                           sResponseReceived := False,
                           sProvideInternalResponse := True\<rparr>\<rparr>
               in if sResponseQueueHandle (uart s)
                  then
                    let (retval, aBuffer, s) = wait_on_response_queue pf rx s;
                        s = (if leftover
                             then
                               let s = PostRxDoneEventToSdkQueue False s
                               in s\<lparr>uart := (uart s)\<lparr>sProvideInternalResponse := False,
                                                       sRxEventPostedToResponseQueue := 0\<rparr>\<rparr>
                             else s);
                        s = (if \<not> sResponseReceived (uart s)
                             then (if \<not> aAvoidNCPRecovery then thciInitiateNCPRecovery s else s)
                             else s)
                    in (retval, aBuffer, s)
                  else
                    let timeoutFraction = 300;
                        numFractions = timeoutMsec div timeoutFraction + 1
                    in wait_polling pf numFractions rx s)
      in (retval, aBuffer,
          s\<lparr>uart := (uart s)\<lparr>sResponseReceived := False, sProvideInternalResponse := False\<rparr>\<rparr>))"

definition thciUartWaitForResponse ::
  "platform \<Rightarrow> 8 word \<Rightarrow> 8 word \<Rightarrow> 32 word \<Rightarrow> (bool \<times> rx_event list) list \<Rightarrow> bool
     \<Rightarrow> thci \<Rightarrow> otError \<times> byte list option \<times> thci" where
  "thciUartWaitForResponse pf aTransactionID aCommand aKey rx leftover s =
     (let avoidNCPRecovery = False
      in thciUartWaitForResponseInternal pf avoidNCPRecovery aTransactionID aCommand aKey
           rx leftover s)"

definition thciUartWaitForResponseIgnoreTimeout ::
  "platform \<Rightarrow> 8 word \<Rightarrow> 8 word \<Rightarrow> 32 word \<Rightarrow> (bool \<times> rx_event list) list \<Rightarrow> bool
     \<Rightarrow> thci \<Rightarrow> otError \<times> byte list option \<times> thci" where
  "thciUartWaitForResponseIgnoreTimeout pf aTransactionID aCommand aKey rx leftover s =
     (let avoidNCPRecovery = True
      in thciUartWaitForResponseInternal pf avoidNCPRecovery aTransactionID aCommand aKey
           rx leftover s)"


text \<open>
  The matching rule in the words of the specification, for a request with transaction
  identifier \<open>tid\<close> that expects \<open>(cmd, key)\<close>: a frame that parses is a response iff the
  request identifier is not the don't-care one and the 4-bit identifier of the frame
  equals it, or the request identifier is the don't-care one and command and key of the
  frame are the expected pair.  It is a success iff command and key are the expected pair.
\<close>

definition spec_response_matches ::
  "platform \<Rightarrow> 8 word \<Rightarrow> 8 word \<Rightarrow> 32 word \<Rightarrow> byte list \<Rightarrow> bool" where
  "spec_response_matches pf tid cmd key aBuf =
     (let (parsedLength, header, command, k, argPtr) = unpack_frame pf aBuf
      in parsedLength = int (length aBuf)
         \<and> ((tid \<noteq> kDontCareTransactionId \<and> header AND 0x0f = tid)
            \<or> (tid = kDontCareTransactionId \<and> ucast cmd = command \<and> key = k)))"

definition spec_response_success ::
  "platform \<Rightarrow> 8 word \<Rightarrow> 32 word \<Rightarrow> byte list \<Rightarrow> bool" where
  "spec_response_success pf cmd key aBuf =
     (let (parsedLength, header, command, k, argPtr) = unpack_frame pf aBuf
      in ucast cmd = command \<and> key = k)"

definition frame_arguments :: "platform \<Rightarrow> byte list \<Rightarrow> byte list" where
  "frame_arguments pf aBuf = snd (snd (snd (snd (unpack_frame pf aBuf))))"

text \<open>An event that does not end the wait: a frame that is no response to the request.\<close>

fun no_response :: "platform \<Rightarrow> 8 word \<Rightarrow> 8 word \<Rightarrow> 32 word \<Rightarrow> rx_event \<Rightarrow> bool" where
  "no_response pf tid cmd key (FrameDecoded aBuf) = (\<not> spec_response_matches pf tid cmd key aBuf)"
| "no_response pf tid cmd key DecodeError = False"

text \<open>A request \<open>(tid, cmd, key)\<close> is registered and no response has been taken yet.\<close>

definition request_pending :: "8 word \<Rightarrow> 8 word \<Rightarrow> 32 word \<Rightarrow> uart_statics \<Rightarrow> bool" where
  "request_pending tid cmd key u \<longleftrightarrow>
     sProvideInternalResponse u \<and> \<not> sResponseReceived u \<and> \<not> sResponseSuccess u
     \<and> \<not> sDecodeFailure u
     \<and> sResponseTransactionId u = tid \<and> sResponseCommand u = cmd \<and> sResponseKey u = key"


subsection \<open>Outbound datagrams: from the IP stack into the store and the queue\<close>

text \<open>
  \<open>struct pbuf\<close> of the IP stack: \<open>payload\<close> of this segment, its length \<open>len\<close>, the
  length \<open>tot_len\<close> of this segment and all that follow, and the \<open>next\<close> segment.
\<close>

datatype pbuf = Pbuf (pbuf_payload: "byte list") (pbuf_len: "16 word")
  (pbuf_tot_len: "16 word") (pbuf_next: "pbuf option")

datatype err_t = ERR_OK | ERR_MEM | ERR_VAL | ERR_IF | ERR_INPROGRESS

text \<open>The \<open>errno\<close> codes returned negated by the helpers; \<open>None\<close> stands for 0.\<close>

datatype errno = ENOMEM | EINVAL | EBADMSG | ENOSPC

definition THCI_CONFIG_MESSAGE_QUEUE_SIZE :: nat where
  "THCI_CONFIG_MESSAGE_QUEUE_SIZE = 16"

definition DequeueMessage :: "thci_sdk_context \<Rightarrow> thci_message_t option \<times> thci_sdk_context" where
  "DequeueMessage c =
     (let queue = mMessageQueue c
      in case mQueue queue ! unat (mTail queue) of
           None \<Rightarrow> (None, c)
         | Some m \<Rightarrow>
             (Some m,
              c\<lparr>mMessageQueue := queue
                   \<lparr>mQueue := (mQueue queue)[unat (mTail queue) := None],
                    mTail := (if unat (mTail queue) < THCI_CONFIG_MESSAGE_QUEUE_SIZE - 1
                              then mTail queue + 1 else 0)\<rparr>\<rparr>))"

definition EnqueueMessage ::
  "thci_message_t option \<Rightarrow> thci_sdk_context \<Rightarrow> errno option \<times> thci_sdk_context" where
  "EnqueueMessage aMessage c =
     (let queue = mMessageQueue c
      in if \<not> (mQueue queue ! unat (mHead queue) = None) then (Some ENOSPC, c)
         else
           (None,
            c\<lparr>mMessageQueue := queue
                 \<lparr>mQueue := (mQueue queue)[unat (mHead queue) := aMessage],
                  mHead := (if unat (mHead queue) < THCI_CONFIG_MESSAGE_QUEUE_SIZE - 1
                            then mHead queue + 1 else 0)\<rparr>\<rparr>))"

definition IsMessageQueueEmpty :: "thci_sdk_context \<Rightarrow> bool" where
  "IsMessageQueueEmpty c =
     (mQueue (mMessageQueue c) ! unat (mTail (mMessageQueue c)) = None)"

definition SetMessageSecurity :: "thci_message_t \<Rightarrow> bool \<Rightarrow> thci_message_t" where
  "SetMessageSecurity aMessage aSecurity =
     (if aSecurity then aMessage\<lparr>mFlags := mFlags aMessage OR THCI_MESSAGE_FLAG_SECURE\<rparr>
      else aMessage\<lparr>mFlags := mFlags aMessage AND NOT THCI_MESSAGE_FLAG_SECURE\<rparr>)"

text \<open>
  \<open>AppendMessage\<close>.  The left side of the test is an \<open>int\<close>, the right side a \<open>size_t\<close>;
  the comparison is unsigned, in 32 bits.  \<open>mBuffer\<close> holds the \<open>mLength\<close> bytes written so
  far.
\<close>

definition AppendMessage ::
  "thci_message_t \<Rightarrow> byte list \<Rightarrow> 16 word \<Rightarrow> errno option \<times> thci_message_t" where
  "AppendMessage aMessage aBuf aLen =
     (if \<not> ((ucast aLen + ucast (mLength aMessage) :: 32 word)
              \<le> ucast (mTotalLength aMessage) - ucast sizeof_thci_message_t)
      then (Some ENOMEM, aMessage)
      else (None,
            aMessage\<lparr>mBuffer := mBuffer aMessage @ take (unat aLen) aBuf,
                      mLength := mLength aMessage + aLen\<rparr>))"

definition ResetOffset :: "thci_message_t \<Rightarrow> thci_message_t" where
  "ResetOffset aMessage = aMessage\<lparr>mOffset := 0\<rparr>"

text \<open>\<open>ReadMessage\<close>: the count returned, the bytes copied out, and the message.\<close>

definition ReadMessage :: "thci_message_t \<Rightarrow> 16 word \<Rightarrow> int \<times> byte list \<times> thci_message_t" where
  "ReadMessage aMessage aLen =
     (let retval = (if uint aLen > uint (mLength aMessage) - uint (mOffset aMessage)
                    then uint (mLength aMessage) - uint (mOffset aMessage)
                    else uint aLen)
      in if retval \<noteq> 0
         then (retval,
               take (nat retval) (drop (unat (mOffset aMessage)) (mBuffer aMessage)),
               aMessage\<lparr>mOffset := mOffset aMessage + word_of_int retval\<rparr>)
         else (retval, [], aMessage))"

text \<open>
  What the driver task does while the IP-stack task blocks in one wait on \<open>mWaitFreeQueue\<close>:
  it releases the given messages, in order.
\<close>

fun release_all :: "thci_message_t list \<Rightarrow> thci_ncp_context \<Rightarrow> thci_ncp_context" where
  "release_all [] c = c"
| "release_all (m # ms) c = release_all ms (FreeMessage (Some m) c)"

text \<open>
  The allocation loop of \<open>CreateTHCIMessageFromPbuf\<close>.  \<open>waits\<close> gives, for each wait on
  \<open>mWaitFreeQueue\<close>, the releases made meanwhile (none once the list is used up).  The wait
  returns the oldest event of the queue, or times out on an empty queue.
\<close>

function allocate_message ::
  "bool \<Rightarrow> 16 word \<Rightarrow> thci_message_t list list \<Rightarrow> thci_ncp_context
     \<Rightarrow> thci_message_t option \<times> thci_ncp_context" where
  "allocate_message aSecurity aLength waits c =
     (case fst (NewMessage aSecurity aLength c) of
        Some m \<Rightarrow> NewMessage aSecurity aLength c
      | None \<Rightarrow>
          let c = (case waits of
                     [] \<Rightarrow> snd (NewMessage aSecurity aLength c)
                   | w # ws \<Rightarrow> release_all w (snd (NewMessage aSecurity aLength c)))
          in (case mWaitFreeQueue c of
                [] \<Rightarrow> (None, c)
              | ev # q \<Rightarrow>
                  allocate_message aSecurity aLength (tl waits)
                    (c\<lparr>mWaitFreeQueue := q, mWaitFreeQueueEmpty := True\<rparr>)))"
  by pat_completeness auto

lemma NewMessage_mWaitFreeQueue:
  "mWaitFreeQueue (snd (NewMessage aSecurity aLength c)) = mWaitFreeQueue c"
  by (simp add: NewMessage_def Let_def)

termination allocate_message
proof (relation "measures [\<lambda>(aSecurity, aLength, waits, c). length waits,
                          \<lambda>(aSecurity, aLength, waits, c). length (mWaitFreeQueue c)]")
  show "wf (measures [\<lambda>(aSecurity, aLength, waits, c). length waits,
                     \<lambda>(aSecurity, aLength, waits, c). length (mWaitFreeQueue c)])"
    by simp
next
  fix aSecurity :: bool and aLength :: "16 word" and waits :: "thci_message_t list list"
    and c xa :: thci_ncp_context and x21 :: nl_event and x22 :: "nl_event list"
  assume "fst (NewMessage aSecurity aLength c) = None"
    and xa: "xa = (case waits of
               [] \<Rightarrow> snd (NewMessage aSecurity aLength c)
             | w # ws \<Rightarrow> release_all w (snd (NewMessage aSecurity aLength c)))"
    and q: "mWaitFreeQueue xa = x21 # x22"
  show "((aSecurity, aLength, tl waits,
          xa\<lparr>mWaitFreeQueue := x22, mWaitFreeQueueEmpty := True\<rparr>),
         aSecurity, aLength, waits, c)
        \<in> measures [\<lambda>(aSecurity, aLength, waits, c). length waits,
                     \<lambda>(aSecurity, aLength, waits, c). length (mWaitFreeQueue c)]"
  proof (cases waits)
    case Nil
    with xa q have "mWaitFreeQueue c = x21 # x22"
      by (simp add: NewMessage_mWaitFreeQueue)
    with Nil show ?thesis by simp
  next
    case (Cons w ws)
    then show ?thesis by simp
  qed
qed

text \<open>
  The copy loop of \<open>CreateTHCIMessageFromPbuf\<close>: \<open>retval\<close>, the remaining \<open>tot_len\<close> and the
  message when the loop is left, by its condition or by \<open>goto done\<close> after a failed
  \<open>AppendMessage\<close> (the flag is \<open>False\<close> then).
\<close>

fun copy_chunks ::
  "pbuf option \<Rightarrow> 16 word \<Rightarrow> errno option \<Rightarrow> thci_message_t
     \<Rightarrow> bool \<times> errno option \<times> 16 word \<times> thci_message_t" where
  "copy_chunks None tot retval message = (True, retval, tot, message)"
| "copy_chunks (Some (Pbuf pl l t nxt)) tot retval message =
     (if tot = 0 then (True, retval, tot, message)
      else
        let n = (if l \<le> tot then l else tot);
            tot = tot - n;
            (retval, message) = AppendMessage message pl n
        in if retval \<noteq> None then (False, retval, tot, message)
           else copy_chunks nxt tot retval message)"

text \<open>
  \<open>CreateTHCIMessageFromPbuf\<close>, for a non-NULL pbuf and a non-NULL \<open>aMessage\<close>, as
  \<open>LwIPOutputIP6\<close> calls it.  The result is \<open>retval\<close> and what \<open>*aMessage\<close> holds afterwards
  (it is NULL before the call).
\<close>

definition CreateTHCIMessageFromPbuf ::
  "pbuf \<Rightarrow> thci_message_t list list \<Rightarrow> thci \<Rightarrow> errno option \<times> thci_message_t option \<times> thci" where
  "CreateTHCIMessageFromPbuf aPbuf waits s =
     (let linkSecurityEnabled =
            (mSecurityFlags (gTHCISDKContext s) AND THCI_SECURITY_FLAG_THREAD_STARTED \<noteq> 0);
          (message, c) = allocate_message linkSecurityEnabled (pbuf_tot_len aPbuf) waits
                           (gTHCINCPContext s);
          s = s\<lparr>gTHCINCPContext := c\<rparr>
      in case message of
           None \<Rightarrow> (Some ENOMEM, None, s)
         | Some message \<Rightarrow>
             let (completed, retval, tot, message) =
                   copy_chunks (Some aPbuf) (pbuf_tot_len aPbuf) (Some EINVAL) message;
                 (retval, aMessage, message) =
                   (if \<not> completed then (retval, None, message)
                    else if tot \<noteq> 0 then (retval, None, message)
                    else
                      let (ok, message) =
                        (if SendProvisionalJoinResponseInsecurely (gTHCISDKContext s)
                         then
                           let message = ResetOffset message;
                               (n, ip6Hdr, message) =
                                 ReadMessage message (word_of_nat sizeof_ip6_hdr)
                           in if (word_of_int n :: 16 word) = word_of_nat sizeof_ip6_hdr
                                 \<and> ip6Hdr ! 6 = IP6_NEXTH_TCP
                              then
                                let (n, srcPort, message) = ReadMessage message 2
                                in if (word_of_int n :: 16 word) \<noteq> 2 then (False, message)
                                   else if ntohs_bytes (srcPort ! 0) (srcPort ! 1)
                                           = mInsecureSourcePort (gTHCISDKContext s)
                                   then (True, SetMessageSecurity message False)
                                   else (True, message)
                              else (True, message)
                         else (True, message))
                      in if \<not> ok then (Some EBADMSG, None, message)
                         else (None, Some (ResetOffset message), ResetOffset message))
             in if retval \<noteq> None
                then (retval, aMessage,
                      s\<lparr>gTHCINCPContext := FreeMessage (Some message) (gTHCINCPContext s)\<rparr>)
                else (retval, aMessage, s))"

text \<open>
  \<open>LwIPOutputIP6\<close>, in the configuration without legacy alarm support and without the
  certification hooks.  \<open>__sync_fetch_and_or\<close> is one step here.
\<close>

definition LwIPOutputIP6 ::
  "nat \<Rightarrow> pbuf \<Rightarrow> thci_message_t list list \<Rightarrow> thci \<Rightarrow> err_t \<times> thci" where
  "LwIPOutputIP6 netif pbuf waits s =
     (if \<not> unat (pbuf_len pbuf) \<le> NL_THCI_PAYLOAD_MTU then (ERR_VAL, s)
      else if \<not> netif = mNetif_THREAD (gTHCISDKContext s) then (ERR_IF, s)
      else
        let (r, message, s) = CreateTHCIMessageFromPbuf pbuf waits s
        in if \<not> r = None
           then (ERR_MEM,
                 case message of
                   None \<Rightarrow> s
                 | Some m \<Rightarrow> s\<lparr>gTHCINCPContext := FreeMessage (Some m) (gTHCINCPContext s)\<rparr>)
           else
             let (r, sdk) = EnqueueMessage message (gTHCISDKContext s)
             in if \<not> r = None
                then (ERR_INPROGRESS,
                      case message of
                        None \<Rightarrow> s\<lparr>gTHCISDKContext := sdk\<rparr>
                      | Some m \<Rightarrow>
                          s\<lparr>gTHCISDKContext := sdk,
                            gTHCINCPContext := FreeMessage (Some m) (gTHCINCPContext s)\<rparr>)
                else
                  let s = s\<lparr>gTHCISDKContext := sdk\<rparr>;
                      old = sOutgoingIPPacketEventPosted s;
                      s = s\<lparr>sOutgoingIPPacketEventPosted := old OR 1\<rparr>
                  in (ERR_OK,
                      if old = 0 then post_to_mSdkQueue sOutgoingIPPacketEvent s else s))"


subsection \<open>A request and its response: the NCP version string\<close>

text \<open>
  \<open>thciUartFrameSend\<close>.  Packing, HDLC encoding and the console are outside this
  repository; \<open>tx\<close> gives what they come to for one frame: the events that
  \<open>UartRxFifoProcess\<close> handles when \<open>PutChars\<close> drains the receive FIFO while the console
  cannot take bytes, and the error code returned.
\<close>

definition thciUartFrameSend :: "platform \<Rightarrow> rx_event list \<times> otError \<Rightarrow> thci \<Rightarrow> otError \<times> thci" where
  "thciUartFrameSend pf tx s = (snd tx, UartRxFifoProcess pf (fst tx) s)"

text \<open>
  \<open>strlen\<close> of the string that starts the given bytes.  The codec hands out a string
  pointer only for a string that ends inside the frame.
\<close>

definition strlen :: "byte list \<Rightarrow> nat" where
  "strlen v = length (takeWhile (\<lambda>b. b \<noteq> 0) v)"

text \<open>\<open>memcpy\<close> of \<open>n\<close> bytes into memory seen from the destination pointer.\<close>

definition memcpy :: "(nat \<Rightarrow> byte) \<Rightarrow> byte list \<Rightarrow> nat \<Rightarrow> (nat \<Rightarrow> byte)" where
  "memcpy dst src n = (\<lambda>i. if i < n then src ! i else dst i)"

text \<open>
  The last statements of \<open>thciGetVersionString\<close>, from \<open>strlen\<close> to the terminator:
  the memory at \<open>aString\<close> afterwards.
\<close>

definition store_version_string :: "byte list \<Rightarrow> nat \<Rightarrow> (nat \<Rightarrow> byte) \<Rightarrow> (nat \<Rightarrow> byte)" where
  "store_version_string version aLength aString =
     (let versionLength = strlen version;
          versionLength = (if aLength < versionLength + 1 then aLength - 1 else versionLength);
          aString = memcpy aString version versionLength
      in aString(versionLength := 0))"

text \<open>
  \<open>thciGetVersionString\<close>.  \<open>aString\<close> is \<open>None\<close> for NULL, otherwise the memory seen from
  the pointer; the result carries that memory as the call leaves it.  \<open>tx\<close>, \<open>rx\<close> and
  \<open>leftover\<close> are what the send and the wait meet.  The command is passed to the wait as a
  \<open>uint8_t\<close>.
\<close>

definition thciGetVersionString ::
  "platform \<Rightarrow> (nat \<Rightarrow> byte) option \<Rightarrow> nat \<Rightarrow> rx_event list \<times> otError
     \<Rightarrow> (bool \<times> rx_event list) list \<Rightarrow> bool \<Rightarrow> thci
     \<Rightarrow> otError \<times> (nat \<Rightarrow> byte) option \<times> thci" where
  "thciGetVersionString pf aString aLength tx rx leftover s =
     (let (tid, c) = GetNewTransactionId (gTHCINCPContext s);
          s = s\<lparr>gTHCINCPContext := c\<rparr>
      in if \<not> (aString \<noteq> None \<and> aLength \<noteq> 0) then (OT_ERROR_INVALID_ARGS, aString, s)
         else if \<not> mModuleState (gTHCINCPContext s) = kModuleStateInitialized
         then (OT_ERROR_INVALID_STATE, aString, s)
         else
           let (retval, s) = thciUartFrameSend pf tx s
           in if \<not> retval = OT_ERROR_NONE then (retval, aString, s)
              else
                let (retval, argPtr, s) =
                      thciUartWaitForResponse pf tid (ucast SPINEL_CMD_PROP_VALUE_IS)
                        SPINEL_PROP_NCP_VERSION rx leftover s
                in if \<not> retval = OT_ERROR_NONE then (retval, aString, s)
                   else
                     let (parsedLength, version) =
                           unpack_utf8 pf (case argPtr of None \<Rightarrow> [] | Some b \<Rightarrow> b)
                     in case version of
                          None \<Rightarrow> (OT_ERROR_PARSE, aString, s)
                        | Some version \<Rightarrow>
                            if \<not> parsedLength > 0 then (OT_ERROR_PARSE, aString, s)
                            else
                              (retval,
                               map_option (store_version_string version aLength) aString,
                               s))"


text \<open>
  The version string that a call of \<open>thciGetVersionString\<close> gets from the NCP: what the
  codec finds in the arguments of the response to the request sent (\<open>None\<close> for a NULL
  string pointer).
\<close>

definition received_version ::
  "platform \<Rightarrow> rx_event list \<times> otError \<Rightarrow> (bool \<times> rx_event list) list \<Rightarrow> bool \<Rightarrow> thci
     \<Rightarrow> byte list option" where
  "received_version pf tx rx leftover s =
     (let (tid, c) = GetNewTransactionId (gTHCINCPContext s);
          s = snd (thciUartFrameSend pf tx (s\<lparr>gTHCINCPContext := c\<rparr>));
          argPtr = fst (snd (thciUartWaitForResponse pf tid (ucast SPINEL_CMD_PROP_VALUE_IS)
                               SPINEL_PROP_NCP_VERSION rx leftover s))
      in snd (unpack_utf8 pf (case argPtr of None \<Rightarrow> [] | Some b \<Rightarrow> b)))"

subsection \<open>The pump event: posting and dispatch, statement by statement\<close>

text \<open>
  The outgoing-IP-packet event is posted from three places, each by the same two statements:
  \<open>__sync_fetch_and_or(&sOutgoingIPPacketEventPosted, 1)\<close> and, when that returned 0,
  \<open>nl_eventqueue_post_event\<close> on the SDK queue, the mailbox of the driver task.  The places
  are the end of \<open>LwIPOutputIP6\<close> (IP-stack task), \<open>thciStallOutgoingDataPackets\<close> when the
  stall is released, and the end of \<open>OutgoingIPPacketEventHandler\<close> (driver task).  A poster
  is between its two statements in \<open>PosterWon\<close>.
\<close>

datatype poster_pc = PosterIdle | PosterWon

text \<open>
  The driver task: waiting for an event; in \<open>OutgoingIPPacketEventHandler\<close> before its first
  statement \<open>sOutgoingIPPacketEventPosted = 0\<close>; behind that statement, draining the message
  queue; between the two posting statements at the end of the handler.
\<close>

datatype driver_pc = DriverIdle | HandlerEntered | HandlerDraining | HandlerWon

text \<open>
  The state the posting statements share: \<open>eventPosted\<close> is the static
  \<open>sOutgoingIPPacketEventPosted\<close>, \<open>taskMailbox\<close> the events in the SDK queue, oldest first.
\<close>

record pump =
  eventPosted :: "8 word"
  taskMailbox :: "nl_event list"
  lwip_pc :: poster_pc
  stall_pc :: poster_pc
  driver_pc :: driver_pc

text \<open>\<open>__sync_fetch_and_or\<close>, one atomic step: the value found and the value stored.\<close>

definition sync_fetch_and_or :: "8 word \<Rightarrow> 8 word \<Rightarrow> 8 word \<times> 8 word" where
  "sync_fetch_and_or v m = (v, v OR m)"

text \<open>
  The statements that read or write the flag or the mailbox, one action each.  The tasks
  interleave between any two of them.  \<open>DispatchEvent\<close> is the driver task taking the oldest
  event from its mailbox and calling the handler of that event; the handlers of the other
  events do not touch the flag and run to their end within the action.  \<open>PostOtherEvent\<close> is a
  post of any of the other events.  The mailbox takes every post.
\<close>

datatype pump_action =
    LwIPOutputIP6_fetch_and_or
  | LwIPOutputIP6_post_event
  | StallRelease_fetch_and_or
  | StallRelease_post_event
  | DispatchEvent
  | Handler_clear
  | Handler_nopost_exit
  | Handler_fetch_and_or
  | Handler_post_event
  | PostOtherEvent nl_event

text \<open>
  One action on the shared state; \<open>None\<close> when the task is not at that statement.  Which way
  the handler leaves (\<open>nopost_exit\<close>, an empty message queue, or the posting statements) is
  the choice of the action.
\<close>

fun pump_step :: "pump_action \<Rightarrow> pump \<Rightarrow> pump option" where
  "pump_step LwIPOutputIP6_fetch_and_or s =
     (if lwip_pc s = PosterIdle
      then let (old, new) = sync_fetch_and_or (eventPosted s) 1
           in Some (s\<lparr>eventPosted := new,
                      lwip_pc := (if old = 0 then PosterWon else PosterIdle)\<rparr>)
      else None)"
| "pump_step LwIPOutputIP6_post_event s =
     (if lwip_pc s = PosterWon
      then Some (s\<lparr>taskMailbox := taskMailbox s @ [sOutgoingIPPacketEvent],
                   lwip_pc := PosterIdle\<rparr>)
      else None)"
| "pump_step StallRelease_fetch_and_or s =
     (if stall_pc s = PosterIdle
      then let (old, new) = sync_fetch_and_or (eventPosted s) 1
           in Some (s\<lparr>eventPosted := new,
                      stall_pc := (if old = 0 then PosterWon else PosterIdle)\<rparr>)
      else None)"
| "pump_step StallRelease_post_event s =
     (if stall_pc s = PosterWon
      then Some (s\<lparr>taskMailbox := taskMailbox s @ [sOutgoingIPPacketEvent],
                   stall_pc := PosterIdle\<rparr>)
      else None)"
| "pump_step DispatchEvent s =
     (if driver_pc s = DriverIdle
      then (case taskMailbox s of
              [] \<Rightarrow> None
            | ev # q \<Rightarrow>
                Some (s\<lparr>taskMailbox := q,
                        driver_pc := (if ev = sOutgoingIPPacketEvent then HandlerEntered
                                      else DriverIdle)\<rparr>))
      else None)"
| "pump_step Handler_clear s =
     (if driver_pc s = HandlerEntered
      then Some (s\<lparr>eventPosted := 0, driver_pc := HandlerDraining\<rparr>)
      else None)"
| "pump_step Handler_nopost_exit s =
     (if driver_pc s = HandlerDraining then Some (s\<lparr>driver_pc := DriverIdle\<rparr>) else None)"
| "pump_step Handler_fetch_and_or s =
     (if driver_pc s = HandlerDraining
      then let (old, new) = sync_fetch_and_or (eventPosted s) 1
           in Some (s\<lparr>eventPosted := new,
                      driver_pc := (if old = 0 then HandlerWon else DriverIdle)\<rparr>)
      else None)"
| "pump_step Handler_post_event s =
     (if driver_pc s = HandlerWon
      then Some (s\<lparr>taskMailbox := taskMailbox s @ [sOutgoingIPPacketEvent],
                   driver_pc := DriverIdle\<rparr>)
      else None)"
| "pump_step (PostOtherEvent ev) s =
     (if ev \<noteq> sOutgoingIPPacketEvent then Some (s\<lparr>taskMailbox := taskMailbox s @ [ev]\<rparr>)
      else None)"

text \<open>An interleaving: the actions in the order they happen.\<close>

fun run_pump :: "pump_action list \<Rightarrow> pump \<Rightarrow> pump option" where
  "run_pump [] s = Some s"
| "run_pump (a # as) s = (case pump_step a s of None \<Rightarrow> None | Some s' \<Rightarrow> run_pump as s')"

text \<open>At start the static flag is zero, the mailbox empty and every task idle.\<close>

definition initial_pump :: pump where
  "initial_pump =
     \<lparr>eventPosted = 0, taskMailbox = [], lwip_pc = PosterIdle, stall_pc = PosterIdle,
      driver_pc = DriverIdle\<rparr>"

text \<open>The pump events resident in the mailbox.\<close>

definition resident :: "pump \<Rightarrow> nat" where
  "resident s = count_list (taskMailbox s) sOutgoingIPPacketEvent"

text \<open>
  Pump events resident, about to be posted by a poster that found the flag zero, or
  dispatched to a handler that has not yet cleared the flag.
\<close>

definition in_flight :: "pump \<Rightarrow> nat" where
  "in_flight s =
     resident s
     + (if lwip_pc s = PosterWon then 1 else 0)
     + (if stall_pc s = PosterWon then 1 else 0)
     + (if driver_pc s = HandlerWon then 1 else 0)
     + (if driver_pc s = HandlerEntered then 1 else 0)"

text \<open>The flag counts the pump events in flight.\<close>

definition pump_inv :: "pump \<Rightarrow> bool" where
  "pump_inv s \<longleftrightarrow> (eventPosted s = 0 \<and> in_flight s = 0) \<or> (eventPosted s = 1 \<and> in_flight s = 1)"

text \<open>The events waiting in the SDK queue (none for a NULL queue).\<close>

definition sdk_queue_events :: "thci \<Rightarrow> nl_event list" where
  "sdk_queue_events s = (case mSdkQueue (gTHCISDKContext s) of None \<Rightarrow> [] | Some q \<Rightarrow> q)"

text \<open>
  Recovery events in the SDK queue, plus one while a call of \<open>thciInitiateNCPRecovery\<close>
  would still post one (state not yet ResetRecovery, SDK queue present).  The receive path
  never changes this number.
\<close>

definition recovery_events :: "thci \<Rightarrow> nat" where
  "recovery_events s = count_list (sdk_queue_events s) sNCPRecoveryEvent"

definition recovery_budget :: "thci \<Rightarrow> nat" where
  "recovery_budget s =
     recovery_events s
     + (if mModuleState (gTHCINCPContext s) \<noteq> kModuleStateResetRecovery
           \<and> mSdkQueue (gTHCISDKContext s) \<noteq> None
        then 1 else 0)"


text \<open>
  The driver after \<open>thciSDKInit\<close> with an SDK queue and \<open>thciInitialize\<close> with a
  state-change callback, and with the UART unit enabled with both frame callbacks and a
  response queue.
\<close>

definition initial_thci :: thci where
  "initial_thci =
     \<lparr>gTHCINCPContext = initial_context\<lparr>mStateChangeCallback := True\<rparr>,
      gTHCISDKContext =
        \<lparr>mSdkQueue = Some [], mNetif_THREAD = 1,
         mMessageQueue = \<lparr>mHead = 0, mTail = 0, mQueue = replicate 16 None\<rparr>,
         mInsecureSourcePort = 0, mSecurityFlags = 0,
         mDeviceRole = OT_DEVICE_ROLE_DISABLED, mStallOutgoingDataPackets = False\<rparr>,
      uart =
        \<lparr>sProvideInternalResponse = False, sRxEventPostedToResponseQueue = 0,
         sRxEventPostedToSdkQueue = 0, sResponseQueueHandle = True,
         sResponseCommand = 0, sResponseKey = 0, sResponseBuffer = [],
         sResponseReceived = False, sResponseTransactionId = 0, sResponseSuccess = False,
         sDecodeFailure = False, sDataFrameCB = True, sControlFrameCB = True\<rparr>,
      sOutgoingIPPacketEventPosted = 0,
      mCallbackContent = replicate 4 [],
      upcalls = []\<rparr>"

text \<open>
  A platform for evaluating the driver on concrete frames.  Its codec reads Spinel packed
  integers of one byte only (values below 128); its pbuf pool never runs dry.
\<close>

definition example_platform :: platform where
  "example_platform =
     \<lparr>unpack_frame = (\<lambda>bs. case bs of
          h # c # k # args \<Rightarrow>
            if c < 0x80 \<and> k < 0x80 then (int (length bs), h, ucast c, ucast k, args)
            else (-1, 0, 0, 0, [])
        | _ \<Rightarrow> (-1, 0, 0, 0, [])),
      unpack_uint_packed = (\<lambda>bs. case bs of
          b # _ \<Rightarrow> if b < 0x80 then (1, ucast b) else (-1, 0)
        | [] \<Rightarrow> (-1, 0)),
      unpack_uint8 = (\<lambda>bs. case bs of b # _ \<Rightarrow> (1, ucast b) | [] \<Rightarrow> (-1, 0)),
      unpack_data = (\<lambda>bs. (int (length bs), bs)),
      unpack_data_only = (\<lambda>bs. (int (length bs), bs)),
      unpack_utf8 = (\<lambda>bs. if 0 \<in> set bs
          then (int (length (takeWhile (\<lambda>b. b \<noteq> 0) bs)) + 1, Some bs)
          else (-1, None)),
      pbuf_alloc = (\<lambda>n. True),
      pbuf_stale = (\<lambda>i. 0)\<rparr>"

section \<open>Transaction identifiers: range and rotation\<close>

lemma unat_byte_less: "unat (t :: 8 word) < 256"
  using unsigned_less [of t, where 'a = nat] by simp

lemma unat_byte_succ:
  "unat (t + 1 :: 8 word) = (if unat t = 255 then 0 else Suc (unat t))"
  using unat_byte_less [of t] by (simp add: unat_word_ariths)

lemma unat_GetNewTransactionId:
  "unat (fst (GetNewTransactionId c)) =
     (if 14 \<le> unat (mTransactionId c) then 2
      else if unat (mTransactionId c) = 0 then 2
      else Suc (unat (mTransactionId c)))"
  by (simp add: GetNewTransactionId_def Let_def kMaxTransactionId_def
      kDontCareTransactionId_def word_le_nat_alt word_less_nat_alt unat_byte_succ)

lemma mTransactionId_GetNewTransactionId:
  "mTransactionId (snd (GetNewTransactionId c)) = fst (GetNewTransactionId c)"
  by (simp add: GetNewTransactionId_def Let_def)

lemma nth_transaction_id_Suc:
  "nth_transaction_id (Suc k) c =
     fst (GetNewTransactionId (c\<lparr>mTransactionId := nth_transaction_id k c\<rparr>))"
proof (induction k arbitrary: c)
  case 0
  have "snd (GetNewTransactionId c) = c\<lparr>mTransactionId := fst (GetNewTransactionId c)\<rparr>"
    by (simp add: GetNewTransactionId_def Let_def)
  then show ?case by simp
next
  case (Suc k)
  have "nth_transaction_id (Suc (Suc k)) c
          = nth_transaction_id (Suc k) (snd (GetNewTransactionId c))"
    by simp
  also have "\<dots> = fst (GetNewTransactionId
      ((snd (GetNewTransactionId c))
         \<lparr>mTransactionId := nth_transaction_id k (snd (GetNewTransactionId c))\<rparr>))"
    by (rule Suc.IH)
  also have "\<dots> = fst (GetNewTransactionId (c\<lparr>mTransactionId := nth_transaction_id (Suc k) c\<rparr>))"
    by (simp add: GetNewTransactionId_def Let_def)
  finally show ?case .
qed

lemma nth_transaction_id_range:
  "2 \<le> unat (nth_transaction_id k c) \<and> unat (nth_transaction_id k c) \<le> 14"
proof (cases k)
  case 0
  then show ?thesis by (simp add: unat_GetNewTransactionId)
next
  case (Suc j)
  then show ?thesis
    by (simp add: nth_transaction_id_Suc unat_GetNewTransactionId del: nth_transaction_id.simps)
qed

lemma nth_transaction_id_step:
  "unat (nth_transaction_id (Suc k) c) = 2 + (unat (nth_transaction_id k c) - 2 + 1) mod 13"
proof -
  have r: "2 \<le> unat (nth_transaction_id k c) \<and> unat (nth_transaction_id k c) \<le> 14"
    by (rule nth_transaction_id_range)
  have "unat (nth_transaction_id (Suc k) c)
          = (if 14 \<le> unat (nth_transaction_id k c) then 2
             else Suc (unat (nth_transaction_id k c)))"
    using r by (simp add: nth_transaction_id_Suc unat_GetNewTransactionId
        del: nth_transaction_id.simps)
  also have "\<dots> = 2 + (unat (nth_transaction_id k c) - 2 + 1) mod 13"
    using r by (cases "unat (nth_transaction_id k c) = 14") auto
  finally show ?thesis .
qed

text \<open>
  C4.  Whatever the counter holds, every identifier that \<open>GetNewTransactionId\<close> returns lies
  in 2..14 (so it is never 0, 1 or 15), the counter is left at the returned value, and each
  further call returns the successor of the previous identifier in the rotation
  2, 3, ..., 14, 2, ...: the identifier of call \<open>k + 1\<close> is the first one advanced \<open>k\<close> places.
\<close>

theorem GetNewTransactionId_round_robin:
  "2 \<le> nth_transaction_id k c \<and> nth_transaction_id k c \<le> 14
   \<and> nth_transaction_id k c \<noteq> kEmptyTransactionId
   \<and> nth_transaction_id k c \<noteq> kDontCareTransactionId
   \<and> nth_transaction_id k c \<noteq> kMaxTransactionId
   \<and> mTransactionId (snd (GetNewTransactionId c)) = fst (GetNewTransactionId c)
   \<and> unat (nth_transaction_id (Suc k) c) = 2 + (unat (nth_transaction_id k c) - 2 + 1) mod 13
   \<and> unat (nth_transaction_id k c) = 2 + (unat (nth_transaction_id 0 c) - 2 + k) mod 13"
proof -
  have r: "2 \<le> unat (nth_transaction_id k c) \<and> unat (nth_transaction_id k c) \<le> 14"
    by (rule nth_transaction_id_range)
  have closed: "unat (nth_transaction_id k c) = 2 + (unat (nth_transaction_id 0 c) - 2 + k) mod 13"
  proof (induction k)
    case 0
    have "2 \<le> unat (nth_transaction_id 0 c) \<and> unat (nth_transaction_id 0 c) \<le> 14"
      by (rule nth_transaction_id_range)
    then show ?case by auto
  next
    case (Suc k)
    have "unat (nth_transaction_id (Suc k) c)
            = 2 + ((unat (nth_transaction_id 0 c) - 2 + k) mod 13 + 1) mod 13"
      by (simp add: nth_transaction_id_step [of k c] Suc.IH del: nth_transaction_id.simps)
    also have "\<dots> = 2 + (unat (nth_transaction_id 0 c) - 2 + Suc k) mod 13"
      by (simp add: mod_Suc_eq)
    finally show ?case .
  qed
  from r have "2 \<le> nth_transaction_id k c" "nth_transaction_id k c \<le> 14"
    by (simp_all add: word_le_nat_alt)
  moreover from r have "nth_transaction_id k c \<noteq> kEmptyTransactionId"
    "nth_transaction_id k c \<noteq> kDontCareTransactionId"
    "nth_transaction_id k c \<noteq> kMaxTransactionId"
    by (auto simp: kEmptyTransactionId_def kDontCareTransactionId_def kMaxTransactionId_def)
  ultimately show ?thesis
    using closed nth_transaction_id_step [of k c] mTransactionId_GetNewTransactionId [of c]
    by (simp del: nth_transaction_id.simps)
qed

section \<open>Outbound message store: wrap, release and rejection\<close>



lemma aligned_length_1000: "aligned_length 1000 = 1012"
  by (simp add: aligned_length_def sizeof_thci_message_t_def)

text \<open>
  C2.  With the lock entered, the head above the tail and inside the buffer: when the aligned
  size does not fit between the head and the end of the buffer but fits before the tail,
  \<open>NewMessage\<close> returns the message at the buffer base, stores the skipped bytes
  \<open>ringEnd - head\<close> in the end-gap and puts the head behind the new message.  Releasing the
  oldest message, when the advanced tail plus the end-gap reaches the end of the buffer, puts
  the tail at the buffer base and clears the gap.  Releasing the newest message, when it
  starts at the buffer base and the gap is non-zero, puts the head at \<open>ringEnd - gap\<close> and
  clears the gap; for the message just allocated by the wrap this is the head from before the
  wrap.
\<close>

lemma ring_size: "THCI_CONFIG_NCP_TX_MESSAGE_RING_BUFFER_SIZE = 6400"
  by (simp add: THCI_CONFIG_NCP_TX_MESSAGE_RING_BUFFER_SIZE_def NL_THCI_PAYLOAD_MTU_def)

lemma unat_end_gap:
  assumes "h \<le> THCI_CONFIG_NCP_TX_MESSAGE_RING_BUFFER_SIZE"
  shows "unat (word_of_int (int THCI_CONFIG_NCP_TX_MESSAGE_RING_BUFFER_SIZE - int h) :: 16 word)
           = THCI_CONFIG_NCP_TX_MESSAGE_RING_BUFFER_SIZE - h"
proof -
  have "int THCI_CONFIG_NCP_TX_MESSAGE_RING_BUFFER_SIZE - int h
          = int (THCI_CONFIG_NCP_TX_MESSAGE_RING_BUFFER_SIZE - h)"
    using assms by simp
  moreover have "THCI_CONFIG_NCP_TX_MESSAGE_RING_BUFFER_SIZE - h < 2 ^ 16"
    by (simp add: ring_size)
  ultimately show ?thesis
    by (simp add: unat_of_nat del: of_nat_diff)
qed

lemma NewMessage_wraps:
  assumes "mMessageLock c = 0"
    and "mMessageRingTail c < mMessageRingHead c"
    and "\<not> unat (aligned_length aLength) + mMessageRingHead c
            < THCI_CONFIG_NCP_TX_MESSAGE_RING_BUFFER_SIZE"
    and "unat (aligned_length aLength) < mMessageRingTail c"
  shows "NewMessage aSecurity aLength c
           = (Some (init_message 0 (aligned_length aLength) aSecurity),
              c\<lparr>mMessageRingEndGap :=
                   word_of_int (int THCI_CONFIG_NCP_TX_MESSAGE_RING_BUFFER_SIZE
                                - int (mMessageRingHead c)),
                mMessageRingHead := unat (aligned_length aLength)\<rparr>)"
  using assms by (simp add: NewMessage_def Let_def)

lemma FreeMessage_tail_reaches_gap:
  assumes "mMessageLock c = 0" and "mAddress m = mMessageRingTail c"
    and "THCI_CONFIG_NCP_TX_MESSAGE_RING_BUFFER_SIZE
           \<le> mMessageRingTail c + unat (mTotalLength m) + unat (mMessageRingEndGap c)"
  shows "mMessageRingTail (FreeMessage (Some m) c) = 0
         \<and> mMessageRingEndGap (FreeMessage (Some m) c) = 0
         \<and> mMessageRingHead (FreeMessage (Some m) c) = mMessageRingHead c"
  using assms by (simp add: FreeMessage_def Let_def)

lemma FreeMessage_head_rewinds_to_base:
  assumes "mMessageLock c = 0" and "mAddress m \<noteq> mMessageRingTail c"
    and "mAddress m + unat (mTotalLength m) = mMessageRingHead c"
    and "mAddress m = 0" and "mMessageRingEndGap c \<noteq> 0"
  shows "mMessageRingHead (FreeMessage (Some m) c)
           = THCI_CONFIG_NCP_TX_MESSAGE_RING_BUFFER_SIZE - unat (mMessageRingEndGap c)
         \<and> mMessageRingEndGap (FreeMessage (Some m) c) = 0
         \<and> mMessageRingTail (FreeMessage (Some m) c) = mMessageRingTail c"
  using assms by (auto simp: FreeMessage_def Let_def)

theorem NewMessage_wrap_FreeMessage_gap:
  assumes "mMessageLock c = 0"
    and "mMessageRingTail c < mMessageRingHead c"
    and "mMessageRingHead c < THCI_CONFIG_NCP_TX_MESSAGE_RING_BUFFER_SIZE"
    and "\<not> unat (aligned_length aLength) + mMessageRingHead c
            < THCI_CONFIG_NCP_TX_MESSAGE_RING_BUFFER_SIZE"
    and "unat (aligned_length aLength) < mMessageRingTail c"
  shows "fst (NewMessage aSecurity aLength c)
           = Some (init_message 0 (aligned_length aLength) aSecurity)
    \<and> unat (mMessageRingEndGap (snd (NewMessage aSecurity aLength c)))
           = THCI_CONFIG_NCP_TX_MESSAGE_RING_BUFFER_SIZE - mMessageRingHead c
    \<and> mMessageRingHead (snd (NewMessage aSecurity aLength c)) = unat (aligned_length aLength)
    \<and> mMessageRingTail (snd (NewMessage aSecurity aLength c)) = mMessageRingTail c
    \<and> (mMessageLock c1 = 0 \<and> mAddress m1 = mMessageRingTail c1
          \<and> THCI_CONFIG_NCP_TX_MESSAGE_RING_BUFFER_SIZE
               \<le> mMessageRingTail c1 + unat (mTotalLength m1) + unat (mMessageRingEndGap c1)
         \<longrightarrow> mMessageRingTail (FreeMessage (Some m1) c1) = 0
             \<and> mMessageRingEndGap (FreeMessage (Some m1) c1) = 0
             \<and> mMessageRingHead (FreeMessage (Some m1) c1) = mMessageRingHead c1)
    \<and> (mMessageLock c2 = 0 \<and> mAddress m2 \<noteq> mMessageRingTail c2
          \<and> mAddress m2 + unat (mTotalLength m2) = mMessageRingHead c2
          \<and> mAddress m2 = 0 \<and> mMessageRingEndGap c2 \<noteq> 0
         \<longrightarrow> mMessageRingHead (FreeMessage (Some m2) c2)
               = THCI_CONFIG_NCP_TX_MESSAGE_RING_BUFFER_SIZE - unat (mMessageRingEndGap c2)
             \<and> mMessageRingEndGap (FreeMessage (Some m2) c2) = 0
             \<and> mMessageRingTail (FreeMessage (Some m2) c2) = mMessageRingTail c2)
    \<and> mMessageRingHead (FreeMessage (fst (NewMessage aSecurity aLength c))
                            (snd (NewMessage aSecurity aLength c)))
           = mMessageRingHead c
    \<and> mMessageRingEndGap (FreeMessage (fst (NewMessage aSecurity aLength c))
                              (snd (NewMessage aSecurity aLength c))) = 0"
proof -
  let ?gap = "word_of_int (int THCI_CONFIG_NCP_TX_MESSAGE_RING_BUFFER_SIZE
                           - int (mMessageRingHead c)) :: 16 word"
  let ?m = "init_message 0 (aligned_length aLength) aSecurity"
  let ?c' = "c\<lparr>mMessageRingEndGap := ?gap, mMessageRingHead := unat (aligned_length aLength)\<rparr>"
  have new: "NewMessage aSecurity aLength c = (Some ?m, ?c')"
    using assms(1,2,4,5) by (rule NewMessage_wraps)
  have gap: "unat ?gap = THCI_CONFIG_NCP_TX_MESSAGE_RING_BUFFER_SIZE - mMessageRingHead c"
    by (rule unat_end_gap, rule less_imp_le, rule assms(3))
  have gap_nz: "?gap \<noteq> 0"
  proof
    assume "?gap = 0"
    then have "unat ?gap = 0" by simp
    with gap assms(3) show False by simp
  qed
  have free: "mMessageRingHead (FreeMessage (Some ?m) ?c')
                = THCI_CONFIG_NCP_TX_MESSAGE_RING_BUFFER_SIZE - unat (mMessageRingEndGap ?c')
              \<and> mMessageRingEndGap (FreeMessage (Some ?m) ?c') = 0
              \<and> mMessageRingTail (FreeMessage (Some ?m) ?c') = mMessageRingTail ?c'"
  proof (rule FreeMessage_head_rewinds_to_base)
    show "mMessageLock ?c' = 0" using assms(1) by simp
    show "mAddress ?m \<noteq> mMessageRingTail ?c'"
      using assms(5) by (simp add: init_message_def)
    show "mAddress ?m + unat (mTotalLength ?m) = mMessageRingHead ?c'"
      by (simp add: init_message_def)
    show "mAddress ?m = 0" by (simp add: init_message_def)
    show "mMessageRingEndGap ?c' \<noteq> 0" using gap_nz by simp
  qed
  have restored: "THCI_CONFIG_NCP_TX_MESSAGE_RING_BUFFER_SIZE - unat (mMessageRingEndGap ?c')
                = mMessageRingHead c"
    using gap assms(3) by simp
  have p1: "mMessageLock c1 = 0 \<and> mAddress m1 = mMessageRingTail c1
          \<and> THCI_CONFIG_NCP_TX_MESSAGE_RING_BUFFER_SIZE
               \<le> mMessageRingTail c1 + unat (mTotalLength m1) + unat (mMessageRingEndGap c1)
         \<longrightarrow> mMessageRingTail (FreeMessage (Some m1) c1) = 0
             \<and> mMessageRingEndGap (FreeMessage (Some m1) c1) = 0
             \<and> mMessageRingHead (FreeMessage (Some m1) c1) = mMessageRingHead c1"
    using FreeMessage_tail_reaches_gap [of c1 m1] by blast
  have p2: "mMessageLock c2 = 0 \<and> mAddress m2 \<noteq> mMessageRingTail c2
          \<and> mAddress m2 + unat (mTotalLength m2) = mMessageRingHead c2
          \<and> mAddress m2 = 0 \<and> mMessageRingEndGap c2 \<noteq> 0
         \<longrightarrow> mMessageRingHead (FreeMessage (Some m2) c2)
               = THCI_CONFIG_NCP_TX_MESSAGE_RING_BUFFER_SIZE - unat (mMessageRingEndGap c2)
             \<and> mMessageRingEndGap (FreeMessage (Some m2) c2) = 0
             \<and> mMessageRingTail (FreeMessage (Some m2) c2) = mMessageRingTail c2"
    using FreeMessage_head_rewinds_to_base [of c2 m2] by blast
  show ?thesis
    unfolding new fst_conv snd_conv
    using gap free restored p1 p2 by simp
qed

theorem NewMessage_wrap_FreeMessage_gap_witness:
  "fst (NewMessage False 1000
          (initial_context\<lparr>mMessageRingHead := 6000, mMessageRingTail := 2000\<rparr>))
     = Some (init_message 0 1012 False)
   \<and> unat (mMessageRingEndGap (snd (NewMessage False 1000
          (initial_context\<lparr>mMessageRingHead := 6000, mMessageRingTail := 2000\<rparr>)))) = 400
   \<and> mMessageRingHead (snd (NewMessage False 1000
          (initial_context\<lparr>mMessageRingHead := 6000, mMessageRingTail := 2000\<rparr>))) = 1012
   \<and> mMessageRingTail (FreeMessage (Some (init_message 5000 1000 False))
          (initial_context\<lparr>mMessageRingHead := 1012, mMessageRingTail := 5000,
             mMessageRingEndGap := 400\<rparr>)) = 0
   \<and> mMessageRingEndGap (FreeMessage (Some (init_message 5000 1000 False))
          (initial_context\<lparr>mMessageRingHead := 1012, mMessageRingTail := 5000,
             mMessageRingEndGap := 400\<rparr>)) = 0
   \<and> mMessageRingHead (FreeMessage (Some (init_message 0 1012 False))
          (initial_context\<lparr>mMessageRingHead := 1012, mMessageRingTail := 2000,
             mMessageRingEndGap := 400\<rparr>)) = 6000
   \<and> mMessageRingEndGap (FreeMessage (Some (init_message 0 1012 False))
          (initial_context\<lparr>mMessageRingHead := 1012, mMessageRingTail := 2000,
             mMessageRingEndGap := 400\<rparr>)) = 0
   \<and> mMessageRingHead (FreeMessage (fst (NewMessage False 1000
          (initial_context\<lparr>mMessageRingHead := 6000, mMessageRingTail := 2000\<rparr>)))
        (snd (NewMessage False 1000
          (initial_context\<lparr>mMessageRingHead := 6000, mMessageRingTail := 2000\<rparr>)))) = 6000"
proof -
  let ?c = "initial_context\<lparr>mMessageRingHead := 6000, mMessageRingTail := 2000\<rparr>"
  let ?c1 = "initial_context\<lparr>mMessageRingHead := 1012, mMessageRingTail := 5000,
               mMessageRingEndGap := 400\<rparr>"
  let ?c2 = "initial_context\<lparr>mMessageRingHead := 1012, mMessageRingTail := 2000,
               mMessageRingEndGap := 400\<rparr>"
  have h1: "mMessageLock ?c = 0" by (simp add: initial_context_def)
  have h2: "mMessageRingTail ?c < mMessageRingHead ?c" by simp
  have h3: "mMessageRingHead ?c < THCI_CONFIG_NCP_TX_MESSAGE_RING_BUFFER_SIZE"
    by (simp add: ring_size)
  have h4: "\<not> unat (aligned_length 1000) + mMessageRingHead ?c
              < THCI_CONFIG_NCP_TX_MESSAGE_RING_BUFFER_SIZE"
    by (simp add: ring_size aligned_length_1000)
  have h5: "unat (aligned_length 1000) < mMessageRingTail ?c"
    by (simp add: aligned_length_1000)
  note W = NewMessage_wrap_FreeMessage_gap [OF h1 h2 h3 h4 h5,
        where aSecurity = False and ?c1.0 = ?c1 and ?m1.0 = "init_message 5000 1000 False"
          and ?c2.0 = ?c2 and ?m2.0 = "init_message 0 1012 False"]
  have w1: "fst (NewMessage False 1000 ?c) = Some (init_message 0 1012 False)"
    using W by (simp add: aligned_length_1000)
  have w2: "unat (mMessageRingEndGap (snd (NewMessage False 1000 ?c))) = 400"
    using W by (simp add: ring_size)
  have w3: "mMessageRingHead (snd (NewMessage False 1000 ?c)) = 1012"
    using W by (simp add: aligned_length_1000)
  have w4: "mMessageRingTail (FreeMessage (Some (init_message 5000 1000 False)) ?c1) = 0
     \<and> mMessageRingEndGap (FreeMessage (Some (init_message 5000 1000 False)) ?c1) = 0"
    using W by (simp add: ring_size init_message_def initial_context_def)
  have w5: "mMessageRingHead (FreeMessage (Some (init_message 0 1012 False)) ?c2) = 6000
     \<and> mMessageRingEndGap (FreeMessage (Some (init_message 0 1012 False)) ?c2) = 0"
    using W by (simp add: ring_size init_message_def initial_context_def)
  have w6: "mMessageRingHead (FreeMessage (fst (NewMessage False 1000 ?c))
              (snd (NewMessage False 1000 ?c))) = 6000"
    using W [THEN conjunct2, THEN conjunct2, THEN conjunct2, THEN conjunct2,
             THEN conjunct2, THEN conjunct2, THEN conjunct1]
    by simp
  show ?thesis
    by (intro conjI w1 w2 w3 w4 [THEN conjunct1] w4 [THEN conjunct2]
        w5 [THEN conjunct1] w5 [THEN conjunct2] w6)
qed

section \<open>Outbound message store: exhaustion under the release discipline\<close>

lemma live_bytes_append [simp]: "live_bytes (xs @ ys) = live_bytes xs + live_bytes ys"
  by (simp add: live_bytes_def)

lemma live_bytes_simps [simp]: "live_bytes [] = 0" "live_bytes (m # ms) = unat (mTotalLength m) + live_bytes ms"
  by (simp_all add: live_bytes_def)

lemma laid_out_end: "laid_out a xs b \<Longrightarrow> b = a + live_bytes xs"
proof (induction xs arbitrary: a)
  case Nil
  then show ?case by simp
next
  case (Cons m ms)
  from Cons.prems have "laid_out (a + unat (mTotalLength m)) ms b" by simp
  from Cons.IH [OF this] show ?case by simp
qed

lemma laid_out_append:
  "laid_out a (xs @ ys) b \<longleftrightarrow> laid_out a xs (a + live_bytes xs) \<and> laid_out (a + live_bytes xs) ys b"
  by (induction xs arbitrary: a) (auto simp: add.assoc)

lemma laid_out_nonempty_less: "laid_out a xs b \<Longrightarrow> xs \<noteq> [] \<Longrightarrow> a < b"
  by (cases xs) (auto dest: laid_out_end)

lemma aligned_length_pos:
  assumes "unat aLength \<le> 65520"
  shows "unat aLength + 12 \<le> unat (aligned_length aLength)"
proof -
  let ?l = "aLength + 12 :: 16 word"
  let ?pad = "(4 - (?l AND 3)) AND 3 :: 16 word"
  have l: "unat ?l = unat aLength + 12"
    using assms by (simp add: unat_word_ariths)
  have "?pad \<le> 3" by (rule word_and_le1)
  then have pad: "unat ?pad \<le> 3" by (simp add: word_le_nat_alt)
  have "unat (?l + ?pad) = unat ?l + unat ?pad"
    using l pad assms by (simp add: unat_word_ariths)
  then show ?thesis
    using l by (simp add: aligned_length_def sizeof_thci_message_t_def Let_def)
qed

lemma NewMessage_empty:
  assumes "mMessageLock c = 0" "mMessageRingHead c = mMessageRingTail c"
  shows "NewMessage sec len c =
     (if unat (aligned_length len) < THCI_CONFIG_NCP_TX_MESSAGE_RING_BUFFER_SIZE
      then (Some (init_message 0 (aligned_length len) sec),
            c\<lparr>mMessageRingHead := unat (aligned_length len), mMessageRingTail := 0\<rparr>)
      else (None, c\<lparr>mMessageRingHead := 0, mMessageRingTail := 0\<rparr>))"
  using assms by (simp add: NewMessage_def Let_def)

lemma NewMessage_below:
  assumes "mMessageLock c = 0" "mMessageRingHead c < mMessageRingTail c"
  shows "NewMessage sec len c =
     (if unat (aligned_length len) + mMessageRingHead c < mMessageRingTail c
      then (Some (init_message (mMessageRingHead c) (aligned_length len) sec),
            c\<lparr>mMessageRingHead := mMessageRingHead c + unat (aligned_length len)\<rparr>)
      else (None, c))"
  using assms by (simp add: NewMessage_def Let_def)

lemma NewMessage_above:
  assumes "mMessageLock c = 0" "mMessageRingTail c < mMessageRingHead c"
  shows "NewMessage sec len c =
     (if unat (aligned_length len) + mMessageRingHead c < THCI_CONFIG_NCP_TX_MESSAGE_RING_BUFFER_SIZE
      then (Some (init_message (mMessageRingHead c) (aligned_length len) sec),
            c\<lparr>mMessageRingHead := mMessageRingHead c + unat (aligned_length len)\<rparr>)
      else if unat (aligned_length len) < mMessageRingTail c
      then (Some (init_message 0 (aligned_length len) sec),
              c\<lparr>mMessageRingEndGap :=
                   word_of_int (int THCI_CONFIG_NCP_TX_MESSAGE_RING_BUFFER_SIZE
                                - int (mMessageRingHead c)),
                mMessageRingHead := unat (aligned_length len)\<rparr>)
      else (None, c))"
  using assms by (simp add: NewMessage_def Let_def)

lemma FreeMessage_oldest:
  assumes "mMessageLock c = 0" "mAddress m = mMessageRingTail c"
  shows "mMessageLock (FreeMessage (Some m) c) = 0"
    and "mMessageRingHead (FreeMessage (Some m) c) = mMessageRingHead c"
    and "mMessageRingTail (FreeMessage (Some m) c) =
          (if THCI_CONFIG_NCP_TX_MESSAGE_RING_BUFFER_SIZE
               \<le> mMessageRingTail c + unat (mTotalLength m) + unat (mMessageRingEndGap c)
           then 0 else mMessageRingTail c + unat (mTotalLength m))"
    and "mMessageRingEndGap (FreeMessage (Some m) c) =
          (if THCI_CONFIG_NCP_TX_MESSAGE_RING_BUFFER_SIZE
               \<le> mMessageRingTail c + unat (mTotalLength m) + unat (mMessageRingEndGap c)
           then 0 else mMessageRingEndGap c)"
  using assms by (simp_all add: FreeMessage_def Let_def)

lemma FreeMessage_newest:
  assumes "mMessageLock c = 0" "mAddress m \<noteq> mMessageRingTail c"
    "mAddress m + unat (mTotalLength m) = mMessageRingHead c"
  shows "mMessageLock (FreeMessage (Some m) c) = 0"
    and "mMessageRingTail (FreeMessage (Some m) c) = mMessageRingTail c"
    and "mMessageRingHead (FreeMessage (Some m) c) =
          (if mAddress m = 0 \<and> mMessageRingEndGap c \<noteq> 0
           then THCI_CONFIG_NCP_TX_MESSAGE_RING_BUFFER_SIZE - unat (mMessageRingEndGap c)
           else mAddress m)"
    and "mMessageRingEndGap (FreeMessage (Some m) c) =
          (if mAddress m = 0 \<and> mMessageRingEndGap c \<noteq> 0 then 0 else mMessageRingEndGap c)"
  using assms by (auto simp: FreeMessage_def Let_def)


lemma init_message_sel [simp]:
  "mAddress (init_message a l s) = a" "mTotalLength (init_message a l s) = l"
  by (simp_all add: init_message_def)

lemma laid_out_same: "laid_out a xs a \<Longrightarrow> xs = []"
  by (cases xs) (auto dest: laid_out_end)

lemma laid_out_snoc:
  "laid_out a (xs @ [m]) b \<longleftrightarrow>
     laid_out a xs (mAddress m) \<and> 0 < unat (mTotalLength m) \<and> b = mAddress m + unat (mTotalLength m)"
proof
  assume "laid_out a (xs @ [m]) b"
  then show "laid_out a xs (mAddress m) \<and> 0 < unat (mTotalLength m)
      \<and> b = mAddress m + unat (mTotalLength m)"
    by (auto simp: laid_out_append)
next
  assume r: "laid_out a xs (mAddress m) \<and> 0 < unat (mTotalLength m)
      \<and> b = mAddress m + unat (mTotalLength m)"
  then have "mAddress m = a + live_bytes xs" by (auto dest: laid_out_end)
  with r show "laid_out a (xs @ [m]) b" by (simp add: laid_out_append)
qed

lemma store_inv_NewMessage:
  assumes inv: "store_inv c live" and ok: "unat len \<le> 65520"
    and step: "store_step (OpNewMessage sec len) (c, live) = (c', live')"
  shows "store_inv c' live'"
proof -
  let ?R = THCI_CONFIG_NCP_TX_MESSAGE_RING_BUFFER_SIZE
  let ?a = "unat (aligned_length len)"
  have pos: "0 < ?a" using aligned_length_pos [OF ok] by simp
  have lock: "mMessageLock c = 0" using inv by (simp add: store_inv_def)
  from inv consider
    (flat) "mMessageRingEndGap c = 0" "mMessageRingTail c \<le> mMessageRingHead c"
      "mMessageRingHead c < ?R" "laid_out (mMessageRingTail c) live (mMessageRingHead c)"
  | (wrapped) ts hs where "mMessageRingEndGap c \<noteq> 0" "mMessageRingHead c < mMessageRingTail c"
      "unat (mMessageRingEndGap c) \<le> ?R" "live = ts @ hs" "ts \<noteq> []" "hs \<noteq> []"
      "laid_out (mMessageRingTail c) ts (?R - unat (mMessageRingEndGap c))"
      "laid_out 0 hs (mMessageRingHead c)"
    by (auto simp: store_inv_def)
  then show ?thesis
  proof cases
    case flat
    show ?thesis
    proof (cases "mMessageRingHead c = mMessageRingTail c")
      case True
      with flat(4) have "live = []" by (auto dest: laid_out_same)
      with step lock True flat pos show ?thesis
        by (auto simp: NewMessage_empty store_inv_def ring_size split: if_splits)
    next
      case False
      with flat(2) have above: "mMessageRingTail c < mMessageRingHead c" by simp
      with flat(4) have ne: "live \<noteq> []" by auto
      have gapw: "unat (word_of_int (int ?R - int (mMessageRingHead c)) :: 16 word)
                    = ?R - mMessageRingHead c"
        by (rule unat_end_gap, rule less_imp_le, rule flat(3))
      then have gapnz: "(word_of_int (int ?R - int (mMessageRingHead c)) :: 16 word) \<noteq> 0"
        using flat(3) by (metis unat_0 zero_less_diff less_irrefl)
      have restored: "?R - (?R - mMessageRingHead c) = mMessageRingHead c"
        using flat(3) by simp
      show ?thesis
      proof (cases "?a + mMessageRingHead c < ?R")
        case True
        with step lock above flat pos show ?thesis
          by (auto simp: NewMessage_above store_inv_def laid_out_snoc add.commute)
      next
        case nofit: False
        show ?thesis
        proof (cases "?a < mMessageRingTail c")
          case True
          have c': "c' = c\<lparr>mMessageRingEndGap := word_of_int (int ?R - int (mMessageRingHead c)),
                          mMessageRingHead := ?a\<rparr>" and live': "live' = live @ [init_message 0 (aligned_length len) sec]"
            using step lock above nofit True by (auto simp: NewMessage_above)
          have "laid_out (mMessageRingTail c) live (?R - unat (mMessageRingEndGap c'))"
            using flat(4) gapw restored by (simp add: c')
          moreover have "laid_out 0 [init_message 0 (aligned_length len) sec] (mMessageRingHead c')"
            using pos by (simp add: c')
          ultimately show ?thesis
            unfolding store_inv_def
            using lock True ne gapnz gapw
            apply (intro conjI disjI2)
                apply (simp add: c')
               apply (simp add: c')
              apply (simp add: c')
             apply (simp add: c' ring_size)
            apply (rule exI [of _ live], rule exI [of _ "[init_message 0 (aligned_length len) sec]"])
            apply (simp add: c' live')
            done
        next
          case False
          with step lock above nofit inv show ?thesis
            by (auto simp: NewMessage_above)
        qed
      qed
    qed
  next
    case wrapped
    show ?thesis
    proof (cases "?a + mMessageRingHead c < mMessageRingTail c")
      case True
      have c': "c' = c\<lparr>mMessageRingHead := mMessageRingHead c + ?a\<rparr>"
        and live': "live' = ts @ (hs @ [init_message (mMessageRingHead c) (aligned_length len) sec])"
        using step lock wrapped(2,4) True by (auto simp: NewMessage_below)
      have "laid_out 0 (hs @ [init_message (mMessageRingHead c) (aligned_length len) sec]) (mMessageRingHead c')"
        using wrapped(8) pos by (simp add: laid_out_snoc c')
      then show ?thesis
        unfolding store_inv_def
        using lock True wrapped
        apply (intro conjI disjI2)
            apply (simp add: c')
           apply (simp add: c')
          apply (simp add: c')
         apply (simp add: c')
        apply (rule exI [of _ ts], rule exI [of _ "hs @ [init_message (mMessageRingHead c) (aligned_length len) sec]"])
        apply (simp add: c' live')
        done
    next
      case False
      with step lock wrapped(2) inv show ?thesis
        by (auto simp: NewMessage_below)
    qed
  qed
qed


lemma store_inv_cases:
  assumes "store_inv c live"
  obtains
    (flat) "mMessageLock c = 0" "mMessageRingEndGap c = 0"
      "mMessageRingTail c \<le> mMessageRingHead c"
      "mMessageRingHead c < THCI_CONFIG_NCP_TX_MESSAGE_RING_BUFFER_SIZE"
      "laid_out (mMessageRingTail c) live (mMessageRingHead c)"
  | (wrapped) ts hs where "mMessageLock c = 0" "mMessageRingEndGap c \<noteq> 0"
      "mMessageRingHead c < mMessageRingTail c"
      "unat (mMessageRingEndGap c) \<le> THCI_CONFIG_NCP_TX_MESSAGE_RING_BUFFER_SIZE"
      "live = ts @ hs" "ts \<noteq> []" "hs \<noteq> []"
      "laid_out (mMessageRingTail c) ts
         (THCI_CONFIG_NCP_TX_MESSAGE_RING_BUFFER_SIZE - unat (mMessageRingEndGap c))"
      "laid_out 0 hs (mMessageRingHead c)"
  using assms by (auto simp: store_inv_def)

lemma store_inv_flatI:
  assumes "mMessageLock c = 0" "mMessageRingEndGap c = 0"
      "mMessageRingTail c \<le> mMessageRingHead c"
      "mMessageRingHead c < THCI_CONFIG_NCP_TX_MESSAGE_RING_BUFFER_SIZE"
      "laid_out (mMessageRingTail c) live (mMessageRingHead c)"
  shows "store_inv c live"
  using assms by (simp add: store_inv_def)

lemma store_inv_wrappedI:
  assumes "mMessageLock c = 0" "mMessageRingEndGap c \<noteq> 0"
      "mMessageRingHead c < mMessageRingTail c"
      "unat (mMessageRingEndGap c) \<le> THCI_CONFIG_NCP_TX_MESSAGE_RING_BUFFER_SIZE"
      "live = ts @ hs" "ts \<noteq> []" "hs \<noteq> []"
      "laid_out (mMessageRingTail c) ts
         (THCI_CONFIG_NCP_TX_MESSAGE_RING_BUFFER_SIZE - unat (mMessageRingEndGap c))"
      "laid_out 0 hs (mMessageRingHead c)"
  shows "store_inv c live"
  using assms unfolding store_inv_def by blast

lemma store_inv_FreeOldest:
  assumes inv: "store_inv c live"
    and step: "store_step OpFreeOldest (c, live) = (c', live')"
  shows "store_inv c' live'"
proof (cases live)
  case Nil
  with step inv show ?thesis by simp
next
  case (Cons m ms)
  let ?R = THCI_CONFIG_NCP_TX_MESSAGE_RING_BUFFER_SIZE
  let ?t = "unat (mTotalLength m)"
  have c': "c' = FreeMessage (Some m) c" and live': "live' = ms"
    using step Cons by simp_all
  from inv show ?thesis
  proof (cases rule: store_inv_cases)
    case flat
    from flat(5) Cons have m: "mAddress m = mMessageRingTail c" "0 < ?t"
      and rest: "laid_out (mMessageRingTail c + ?t) ms (mMessageRingHead c)"
      by simp_all
    from rest have "mMessageRingTail c + ?t \<le> mMessageRingHead c"
      by (auto dest: laid_out_end)
    with flat(4) have no: "\<not> ?R \<le> mMessageRingTail c + ?t + unat (mMessageRingEndGap c)"
      using flat(2) by simp
    show ?thesis
    proof (rule store_inv_flatI)
      show "mMessageLock c' = 0" by (simp add: c' FreeMessage_oldest [OF flat(1) m(1)])
      show "mMessageRingEndGap c' = 0"
        using no flat(2) by (simp add: c' FreeMessage_oldest [OF flat(1) m(1)])
      show "mMessageRingTail c' \<le> mMessageRingHead c'"
        using no \<open>mMessageRingTail c + ?t \<le> mMessageRingHead c\<close>
        by (simp add: c' FreeMessage_oldest [OF flat(1) m(1)])
      show "mMessageRingHead c' < ?R"
        using flat(4) by (simp add: c' FreeMessage_oldest [OF flat(1) m(1)])
      show "laid_out (mMessageRingTail c') live' (mMessageRingHead c')"
        using no rest by (simp add: c' live' FreeMessage_oldest [OF flat(1) m(1)])
    qed
  next
    case (wrapped ts hs)
    from wrapped(5,6) Cons obtain ts' where ts: "ts = m # ts'" and ms: "ms = ts' @ hs"
      by (cases ts) auto
    let ?g = "unat (mMessageRingEndGap c)"
    from wrapped(8) ts have m: "mAddress m = mMessageRingTail c" "0 < ?t"
      and rest: "laid_out (mMessageRingTail c + ?t) ts' (?R - ?g)"
      by simp_all
    note F = FreeMessage_oldest [OF wrapped(1) m(1)]
    have hlt: "mMessageRingHead c < ?R"
      using wrapped(3) rest m(2) by (auto dest: laid_out_end)
    show ?thesis
    proof (cases "ts' = []")
      case True
      with rest have "mMessageRingTail c + ?t = ?R - ?g" by simp
      with wrapped(4) have reach: "?R \<le> mMessageRingTail c + ?t + ?g" by simp
      show ?thesis
      proof (rule store_inv_flatI)
        show "mMessageLock c' = 0" by (simp add: c' F)
        show "mMessageRingEndGap c' = 0" using reach by (simp add: c' F)
        show "mMessageRingTail c' \<le> mMessageRingHead c'" using reach by (simp add: c' F)
        show "mMessageRingHead c' < ?R" using hlt by (simp add: c' F)
        show "laid_out (mMessageRingTail c') live' (mMessageRingHead c')"
          using reach wrapped(9) True by (simp add: c' live' ms F)
      qed
    next
      case False
      with rest have lt: "mMessageRingTail c + ?t < ?R - ?g"
        by (rule laid_out_nonempty_less)
      then have no: "\<not> ?R \<le> mMessageRingTail c + ?t + ?g" by simp
      show ?thesis
      proof (rule store_inv_wrappedI [where ts = ts' and hs = hs])
        show "mMessageLock c' = 0" by (simp add: c' F)
        show "mMessageRingEndGap c' \<noteq> 0" using no wrapped(2) by (simp add: c' F)
        show "mMessageRingHead c' < mMessageRingTail c'"
          using no wrapped(3) by (simp add: c' F)
        show "unat (mMessageRingEndGap c') \<le> ?R" using no wrapped(4) by (simp add: c' F)
        show "live' = ts' @ hs" by (simp add: live' ms)
        show "ts' \<noteq> []" by (rule False)
        show "hs \<noteq> []" by (rule wrapped(7))
        show "laid_out (mMessageRingTail c') ts' (?R - unat (mMessageRingEndGap c'))"
          using no rest by (simp add: c' F)
        show "laid_out 0 hs (mMessageRingHead c')"
          using wrapped(9) by (simp add: c' F)
      qed
    qed
  qed
qed


lemma store_inv_FreeNewest:
  assumes inv: "store_inv c live"
    and step: "store_step OpFreeNewest (c, live) = (c', live')"
  shows "store_inv c' live'"
proof (cases "live = []")
  case True
  with step inv show ?thesis by simp
next
  case ne: False
  let ?R = THCI_CONFIG_NCP_TX_MESSAGE_RING_BUFFER_SIZE
  let ?m = "last live"
  let ?t = "unat (mTotalLength ?m)"
  let ?g = "unat (mMessageRingEndGap c)"
  have c': "c' = FreeMessage (Some ?m) c" and live': "live' = butlast live"
    using step ne by simp_all
  from inv show ?thesis
  proof (cases rule: store_inv_cases)
    case flat
    have "laid_out (mMessageRingTail c) (butlast live @ [?m]) (mMessageRingHead c)"
      using flat(5) ne by simp
    then have pre: "laid_out (mMessageRingTail c) (butlast live) (mAddress ?m)"
      and pos: "0 < ?t" and hd: "mMessageRingHead c = mAddress ?m + ?t"
      by (simp_all add: laid_out_snoc)
    show ?thesis
    proof (cases "mAddress ?m = mMessageRingTail c")
      case True
      note F = FreeMessage_oldest [OF flat(1) True]
      from pre True have emp: "butlast live = []" by (auto dest: laid_out_same)
      have no: "\<not> ?R \<le> mMessageRingTail c + ?t + ?g"
        using flat(2,4) hd True by simp
      show ?thesis
      proof (rule store_inv_flatI)
        show "mMessageLock c' = 0" by (simp add: c' F)
        show "mMessageRingEndGap c' = 0" using no flat(2) by (simp add: c' F)
        show "mMessageRingTail c' \<le> mMessageRingHead c'"
          using no hd True by (simp add: c' F)
        show "mMessageRingHead c' < ?R" using flat(4) by (simp add: c' F)
        show "laid_out (mMessageRingTail c') live' (mMessageRingHead c')"
          using no hd True emp by (simp add: c' live' F)
      qed
    next
      case False
      note F = FreeMessage_newest [OF flat(1) False hd [symmetric]]
      show ?thesis
      proof (rule store_inv_flatI)
        show "mMessageLock c' = 0" by (simp add: c' F)
        show "mMessageRingEndGap c' = 0" using flat(2) by (simp add: c' F)
        show "mMessageRingTail c' \<le> mMessageRingHead c'"
          using flat(2) pre by (auto simp: c' F dest: laid_out_end)
        show "mMessageRingHead c' < ?R" using flat(2,4) hd by (simp add: c' F)
        show "laid_out (mMessageRingTail c') live' (mMessageRingHead c')"
          using flat(2) pre by (simp add: c' live' F)
      qed
    qed
  next
    case (wrapped ts hs)
    have last: "?m = last hs" and bl: "butlast live = ts @ butlast hs"
      using wrapped(5,7) by (simp_all add: butlast_append)
    have "laid_out 0 (butlast hs @ [?m]) (mMessageRingHead c)"
      using wrapped(9,7) last by simp
    then have pre: "laid_out 0 (butlast hs) (mAddress ?m)"
      and pos: "0 < ?t" and hd: "mMessageRingHead c = mAddress ?m + ?t"
      by (simp_all add: laid_out_snoc)
    have nt: "mAddress ?m \<noteq> mMessageRingTail c"
      using hd pos wrapped(3) by simp
    note F = FreeMessage_newest [OF wrapped(1) nt hd [symmetric]]
    have tl: "mMessageRingTail c < ?R - ?g"
      using wrapped(8,6) by (rule laid_out_nonempty_less)
    show ?thesis
    proof (cases "butlast hs = []")
      case True
      with pre have base: "mAddress ?m = 0" by simp
      have gpos: "0 < ?g" using wrapped(2) by (simp add: unat_gt_0)
      show ?thesis
      proof (rule store_inv_flatI)
        show "mMessageLock c' = 0" by (simp add: c' F)
        show "mMessageRingEndGap c' = 0" using base wrapped(2) by (simp add: c' F)
        show "mMessageRingTail c' \<le> mMessageRingHead c'"
          using base wrapped(2) tl by (simp add: c' F)
        show "mMessageRingHead c' < ?R"
          using base wrapped(2) gpos tl by (simp add: c' F)
        show "laid_out (mMessageRingTail c') live' (mMessageRingHead c')"
          using base wrapped(2,8) True by (simp add: c' live' bl F)
      qed
    next
      case False
      with pre have nz: "0 < mAddress ?m" by (rule laid_out_nonempty_less)
      show ?thesis
      proof (rule store_inv_wrappedI [where ts = ts and hs = "butlast hs"])
        show "mMessageLock c' = 0" by (simp add: c' F)
        show "mMessageRingEndGap c' \<noteq> 0" using nz wrapped(2) by (simp add: c' F)
        show "mMessageRingHead c' < mMessageRingTail c'"
          using nz wrapped(3) hd by (simp add: c' F)
        show "unat (mMessageRingEndGap c') \<le> ?R" using nz wrapped(4) by (simp add: c' F)
        show "live' = ts @ butlast hs" by (simp add: live' bl)
        show "ts \<noteq> []" by (rule wrapped(6))
        show "butlast hs \<noteq> []" by (rule False)
        show "laid_out (mMessageRingTail c') ts (?R - unat (mMessageRingEndGap c'))"
          using nz wrapped(8) by (simp add: c' F)
        show "laid_out 0 (butlast hs) (mMessageRingHead c')"
          using nz pre by (simp add: c' F)
      qed
    qed
  qed
qed

lemma store_inv_step:
  assumes "store_inv c live" "store_op_ok x"
  shows "store_inv (fst (store_step x (c, live))) (snd (store_step x (c, live)))"
proof (cases x)
  case (OpNewMessage sec len)
  with assms show ?thesis
    using store_inv_NewMessage [of c live len sec "fst (store_step x (c, live))" "snd (store_step x (c, live))"]
    by simp
next
  case OpFreeOldest
  with assms show ?thesis
    using store_inv_FreeOldest [of c live "fst (store_step x (c, live))" "snd (store_step x (c, live))"]
    by simp
next
  case OpFreeNewest
  with assms show ?thesis
    using store_inv_FreeNewest [of c live "fst (store_step x (c, live))" "snd (store_step x (c, live))"]
    by simp
qed

lemma store_inv_run:
  assumes "store_inv (fst s) (snd s)" "list_all store_op_ok ops"
  shows "store_inv (fst (run_store ops s)) (snd (run_store ops s))"
  using assms
proof (induction ops arbitrary: s)
  case Nil
  then show ?case by simp
next
  case (Cons x xs)
  have "store_inv (fst (store_step x s)) (snd (store_step x s))"
    using store_inv_step [of "fst s" "snd s" x] Cons.prems by simp
  with Cons.IH [of "store_step x s"] Cons.prems show ?case by simp
qed

lemma store_inv_initial: "store_inv initial_context []"
  by (simp add: store_inv_def initial_context_def ring_size)

lemma store_inv_tight:
  assumes "store_inv c live"
  shows "(if mMessageRingTail c \<le> mMessageRingHead c
          then mMessageRingHead c - mMessageRingTail c
          else THCI_CONFIG_NCP_TX_MESSAGE_RING_BUFFER_SIZE - mMessageRingTail c + mMessageRingHead c)
         = live_bytes live + unat (mMessageRingEndGap c)"
  using assms
proof (cases rule: store_inv_cases)
  case flat
  then show ?thesis by (auto dest: laid_out_end)
next
  case (wrapped ts hs)
  from wrapped(8) have "THCI_CONFIG_NCP_TX_MESSAGE_RING_BUFFER_SIZE - unat (mMessageRingEndGap c)
     = mMessageRingTail c + live_bytes ts" by (rule laid_out_end)
  moreover from wrapped(9) have "mMessageRingHead c = live_bytes hs" by (auto dest: laid_out_end)
  ultimately show ?thesis using wrapped(3,4,5) by simp
qed

lemma store_inv_NewMessage_succeeds:
  assumes inv: "store_inv c live"
    and room: "live_bytes live + unat (mMessageRingEndGap c) + 2 * unat (aligned_length len)
                 < THCI_CONFIG_NCP_TX_MESSAGE_RING_BUFFER_SIZE"
  shows "fst (NewMessage sec len c) \<noteq> None"
proof -
  note T = store_inv_tight [OF inv]
  from inv show ?thesis
  proof (cases rule: store_inv_cases)
    case flat
    show ?thesis
    proof (cases "mMessageRingHead c = mMessageRingTail c")
      case True
      with flat(1) room show ?thesis by (simp add: NewMessage_empty)
    next
      case False
      with flat(3) have above: "mMessageRingTail c < mMessageRingHead c" by simp
      with T room flat(4) show ?thesis
        by (auto simp: NewMessage_above [OF flat(1) above])
    qed
  next
    case (wrapped ts hs)
    with T room show ?thesis
      by (auto simp: NewMessage_below [OF wrapped(1,3)])
  qed
qed

text \<open>
  C3, as stated, fails.  From the initial store, two requests of 3000 bytes are granted
  (3012 bytes each with header) and the older one is released.  The live allocations are
  then 3012 bytes, and with a third request of 3000 bytes, its header and three bytes of
  padding they stay below the capacity of 6400 bytes; yet \<open>NewMessage\<close> returns NULL,
  because neither the 376 bytes behind the head nor the 3012 bytes before the tail hold the
  3012 bytes of the request.
\<close>

theorem NewMessage_false_exhaustion_counterexample:
  "list_all store_op_ok [OpNewMessage False 3000, OpNewMessage False 3000, OpFreeOldest]
   \<and> live_bytes (snd (run_store
          [OpNewMessage False 3000, OpNewMessage False 3000, OpFreeOldest]
          (initial_context, []))) + (3000 + 12 + 3)
        < THCI_CONFIG_NCP_TX_MESSAGE_RING_BUFFER_SIZE
   \<and> fst (NewMessage False 3000 (fst (run_store
          [OpNewMessage False 3000, OpNewMessage False 3000, OpFreeOldest]
          (initial_context, [])))) = None"
  by (simp add: NewMessage_def FreeMessage_def Let_def aligned_length_def
      sizeof_thci_message_t_def init_message_def initial_context_def ring_size)

text \<open>
  C3, amended.  For every sequence of \<open>NewMessage\<close> and \<open>FreeMessage\<close> operations that
  starts from the initial store, releases only the oldest or the newest live message and
  requests at most 65520 bytes at a time (so that the 16-bit length does not wrap),
  \<open>NewMessage\<close> returns a message whenever the live allocations (headers and padding
  included) plus the end-gap plus twice the aligned size of the request are below the ring
  capacity.
\<close>

theorem NewMessage_no_false_exhaustion:
  assumes "list_all store_op_ok ops"
    and "live_bytes (snd (run_store ops (initial_context, [])))
           + unat (mMessageRingEndGap (fst (run_store ops (initial_context, []))))
           + 2 * unat (aligned_length aLength)
         < THCI_CONFIG_NCP_TX_MESSAGE_RING_BUFFER_SIZE"
  shows "fst (NewMessage aSecurity aLength (fst (run_store ops (initial_context, [])))) \<noteq> None"
proof -
  have "store_inv (fst (run_store ops (initial_context, [])))
                  (snd (run_store ops (initial_context, [])))"
    using store_inv_initial assms(1) by (intro store_inv_run) simp_all
  then show ?thesis
    using assms(2) by (rule store_inv_NewMessage_succeeds)
qed

theorem NewMessage_no_false_exhaustion_witness:
  "fst (NewMessage False 1000 (fst (run_store
          [OpNewMessage False 1000, OpNewMessage False 1000, OpFreeOldest]
          (initial_context, [])))) \<noteq> None"
proof -
  have ok: "list_all store_op_ok [OpNewMessage False 1000, OpNewMessage False 1000, OpFreeOldest]"
    by simp
  have room: "live_bytes (snd (run_store
          [OpNewMessage False 1000, OpNewMessage False 1000, OpFreeOldest]
          (initial_context, [])))
       + unat (mMessageRingEndGap (fst (run_store
          [OpNewMessage False 1000, OpNewMessage False 1000, OpFreeOldest]
          (initial_context, []))))
       + 2 * unat (aligned_length 1000)
     < THCI_CONFIG_NCP_TX_MESSAGE_RING_BUFFER_SIZE"
    by (simp add: NewMessage_def FreeMessage_def Let_def aligned_length_1000
        init_message_def initial_context_def ring_size)
  show ?thesis
    by (rule NewMessage_no_false_exhaustion [OF ok room])
qed

section \<open>Control-plane dispatch: the state-changed event\<close>

lemma sdk_queue_events_post:
  "sdk_queue_events (post_to_mSdkQueue ev s) =
     sdk_queue_events s @ (if mSdkQueue (gTHCISDKContext s) = None then [] else [ev])"
  by (auto simp: sdk_queue_events_def post_to_mSdkQueue_def)

lemma post_to_mSdkQueue_fields [simp]:
  "gTHCINCPContext (post_to_mSdkQueue ev s) = gTHCINCPContext s"
  "uart (post_to_mSdkQueue ev s) = uart s"
  "upcalls (post_to_mSdkQueue ev s) = upcalls s"
  "mCallbackContent (post_to_mSdkQueue ev s) = mCallbackContent s"
  "(mSdkQueue (gTHCISDKContext (post_to_mSdkQueue ev s)) = None)
     = (mSdkQueue (gTHCISDKContext s) = None)"
  by (auto simp: post_to_mSdkQueue_def split: option.splits)

lemma thciInitiateNCPRecovery_fields [simp]:
  "mStateChangeFlags (gTHCINCPContext (thciInitiateNCPRecovery s))
     = mStateChangeFlags (gTHCINCPContext s)"
  "(mSdkQueue (gTHCISDKContext (thciInitiateNCPRecovery s)) = None)
     = (mSdkQueue (gTHCISDKContext s) = None)"
  "uart (thciInitiateNCPRecovery s) = uart s"
  "upcalls (thciInitiateNCPRecovery s) = upcalls s"
  by (simp_all add: thciInitiateNCPRecovery_def Let_def del: not_None_eq)

lemma thciInitiateNCPRecovery_events:
  "sdk_queue_events (thciInitiateNCPRecovery s) =
     sdk_queue_events s @
       (if mModuleState (gTHCINCPContext s) \<noteq> kModuleStateResetRecovery
           \<and> mSdkQueue (gTHCISDKContext s) \<noteq> None
        then [sNCPRecoveryEvent] else [])"
  by (simp add: thciInitiateNCPRecovery_def Let_def sdk_queue_events_post del: not_None_eq)
     (simp add: sdk_queue_events_def)

lemma HandleLastStatusUpdate_fields [simp]:
  "mStateChangeFlags (gTHCINCPContext (HandleLastStatusUpdate pf args s))
     = mStateChangeFlags (gTHCINCPContext s)"
  "(mSdkQueue (gTHCISDKContext (HandleLastStatusUpdate pf args s)) = None)
     = (mSdkQueue (gTHCISDKContext s) = None)"
  "uart (HandleLastStatusUpdate pf args s) = uart s"
  "upcalls (HandleLastStatusUpdate pf args s) = upcalls s"
  by (simp_all add: HandleLastStatusUpdate_def Let_def split: prod.splits)

lemma sdk_queue_events_ncp_update [simp]:
  "sdk_queue_events (s\<lparr>gTHCINCPContext := c\<rparr>) = sdk_queue_events s"
  "sdk_queue_events (s\<lparr>mCallbackContent := cc\<rparr>) = sdk_queue_events s"
  "sdk_queue_events (s\<lparr>uart := u\<rparr>) = sdk_queue_events s"
  "sdk_queue_events (s\<lparr>upcalls := up\<rparr>) = sdk_queue_events s"
  by (simp_all add: sdk_queue_events_def)

lemma HandleLastStatusUpdate_state_change_count [simp]:
  "count_list (sdk_queue_events (HandleLastStatusUpdate pf args s)) sStateChangeEvent
     = count_list (sdk_queue_events s) sStateChangeEvent"
  by (simp add: HandleLastStatusUpdate_def Let_def thciInitiateNCPRecovery_events
      split: prod.splits del: not_None_eq)

lemma AllocateCallbackBuffer_fields [simp]:
  "mStateChangeFlags (gTHCINCPContext (snd (AllocateCallbackBuffer st s)))
     = mStateChangeFlags (gTHCINCPContext s)"
  "gTHCISDKContext (snd (AllocateCallbackBuffer st s)) = gTHCISDKContext s"
  "sdk_queue_events (snd (AllocateCallbackBuffer st s)) = sdk_queue_events s"
  "uart (snd (AllocateCallbackBuffer st s)) = uart s"
  "upcalls (snd (AllocateCallbackBuffer st s)) = upcalls s"
  by (simp_all add: AllocateCallbackBuffer_def sdk_queue_events_def split: option.splits)

lemma or_mStateChangeFlags_fields [simp]:
  "gTHCISDKContext (or_mStateChangeFlags f s) = gTHCISDKContext s"
  "sdk_queue_events (or_mStateChangeFlags f s) = sdk_queue_events s"
  "uart (or_mStateChangeFlags f s) = uart s"
  "upcalls (or_mStateChangeFlags f s) = upcalls s"
  by (simp_all add: or_mStateChangeFlags_def)

lemma sdk_queue_events_role [simp]:
  "sdk_queue_events (s\<lparr>gTHCISDKContext := (gTHCISDKContext s)\<lparr>mDeviceRole := r\<rparr>\<rparr>)
     = sdk_queue_events s"
  by (simp add: sdk_queue_events_def)

lemma prop_value_is_switch_count:
  "count_list (sdk_queue_events (snd (prop_value_is_switch pf key args s))) sStateChangeEvent
           = count_list (sdk_queue_events s) sStateChangeEvent"
  by (simp add: prop_value_is_switch_def Let_def split_beta sdk_queue_events_post
      split: option.splits del: not_None_eq)

lemma prop_value_is_switch_queue:
  "(mSdkQueue (gTHCISDKContext (snd (prop_value_is_switch pf key args s))) = None)
     = (mSdkQueue (gTHCISDKContext s) = None)"
  by (simp add: prop_value_is_switch_def Let_def split_beta
      split: option.splits del: not_None_eq)

lemmas spinel_prop_defs =
  SPINEL_PROP_LAST_STATUS_def SPINEL_PROP_NET_ROLE_def SPINEL_PROP_NEST_LEGACY_ULA_PREFIX_def
  SPINEL_PROP_MAC_SCAN_STATE_def SPINEL_PROP_THREAD_CHILD_TABLE_def
  SPINEL_PROP_IPV6_ADDRESS_TABLE_def SPINEL_PROP_IPV6_MULTICAST_ADDRESS_TABLE_def
  SPINEL_PROP_STREAM_DEBUG_def

lemma prop_value_is_switch_goto_done:
  "\<not> fst (prop_value_is_switch pf key args s) \<Longrightarrow>
     mStateChangeFlags (gTHCINCPContext (snd (prop_value_is_switch pf key args s)))
       = mStateChangeFlags (gTHCINCPContext s)"
  by (simp add: prop_value_is_switch_def Let_def split_beta spinel_prop_defs
      split: option.splits if_splits del: not_None_eq)

lemma prop_value_is_switch_uart [simp]:
  "uart (snd (prop_value_is_switch pf key args s)) = uart s"
  "upcalls (snd (prop_value_is_switch pf key args s)) = upcalls s"
  by (simp_all add: prop_value_is_switch_def Let_def split_beta
      split: option.splits del: not_None_eq)

lemma ReceiveControlFrame_count:
  "count_list (sdk_queue_events (ReceiveControlFrame pf h cmd key args s)) sStateChangeEvent
     = count_list (sdk_queue_events s) sStateChangeEvent
       + (if mSdkQueue (gTHCISDKContext s) \<noteq> None
             \<and> mStateChangeFlags (gTHCINCPContext s) = 0
             \<and> mStateChangeFlags (gTHCINCPContext (ReceiveControlFrame pf h cmd key args s)) \<noteq> 0
          then 1 else 0)"
proof (cases "cmd = SPINEL_CMD_PROP_VALUE_IS")
  case True
  let ?r = "prop_value_is_switch pf key args s"
  show ?thesis
  proof (cases "fst ?r")
    case True
    with \<open>cmd = SPINEL_CMD_PROP_VALUE_IS\<close> show ?thesis
      by (simp add: ReceiveControlFrame_def Let_def split_beta sdk_queue_events_post
          prop_value_is_switch_count prop_value_is_switch_queue del: not_None_eq)
  next
    case False
    with \<open>cmd = SPINEL_CMD_PROP_VALUE_IS\<close> show ?thesis
      by (simp add: ReceiveControlFrame_def Let_def split_beta
          prop_value_is_switch_count prop_value_is_switch_goto_done del: not_None_eq)
  qed
next
  case False
  then show ?thesis
    by (simp add: ReceiveControlFrame_def Let_def split_beta sdk_queue_events_post
        SPINEL_CMD_PROP_VALUE_IS_def SPINEL_CMD_PROP_VALUE_INSERTED_def
        split: option.splits del: not_None_eq)
qed

lemma StateChangeEventHandler_consumes:
  "mStateChangeCallback (gTHCINCPContext s) \<Longrightarrow>
     mStateChangeFlags (gTHCINCPContext (StateChangeEventHandler s)) = 0
     \<and> upcalls (StateChangeEventHandler s)
         = upcalls s @ [StateChangeCallback (mStateChangeFlags (gTHCINCPContext s))]"
  by (simp add: StateChangeEventHandler_def Let_def)

text \<open>
  C8.  With an SDK queue present, handling a control frame posts the state-changed event
  \<open>sStateChangeEvent\<close> exactly once when it takes the pending flags \<open>mStateChangeFlags\<close>
  from zero to non-zero, and not at all otherwise (flags already non-zero, or unchanged).
  The handler of that event, \<open>StateChangeEventHandler\<close>, with a state-change callback
  registered, leaves the flags at zero and calls the callback once, with the flags it found.
\<close>

theorem ReceiveControlFrame_posts_state_change_once:
  assumes "mSdkQueue (gTHCISDKContext s) \<noteq> None"
    and "mStateChangeCallback (gTHCINCPContext s1)"
  shows "count_list (sdk_queue_events (ReceiveControlFrame pf aHeader aCommand aKey aArgPtr s))
           sStateChangeEvent
         = count_list (sdk_queue_events s) sStateChangeEvent
           + (if mStateChangeFlags (gTHCINCPContext s) = 0
                 \<and> mStateChangeFlags (gTHCINCPContext
                       (ReceiveControlFrame pf aHeader aCommand aKey aArgPtr s)) \<noteq> 0
              then 1 else 0)
     \<and> mStateChangeFlags (gTHCINCPContext (StateChangeEventHandler s1)) = 0
     \<and> upcalls (StateChangeEventHandler s1)
         = upcalls s1 @ [StateChangeCallback (mStateChangeFlags (gTHCINCPContext s1))]"
  using assms ReceiveControlFrame_count [of pf aHeader aCommand aKey aArgPtr s]
    StateChangeEventHandler_consumes [of s1]
  by (simp del: not_None_eq)

lemma ReceiveControlFrame_role_example:
  "ReceiveControlFrame example_platform 0x80 SPINEL_CMD_PROP_VALUE_IS SPINEL_PROP_NET_ROLE [2]
     initial_thci
   = initial_thci
       \<lparr>gTHCINCPContext := (gTHCINCPContext initial_thci)\<lparr>mStateChangeFlags := 4\<rparr>,
        gTHCISDKContext := (gTHCISDKContext initial_thci)
          \<lparr>mDeviceRole := OT_DEVICE_ROLE_ROUTER, mSdkQueue := Some [sStateChangeEvent]\<rparr>\<rparr>"
  by (simp add: ReceiveControlFrame_def prop_value_is_switch_def Let_def
      example_platform_def initial_thci_def initial_context_def spinel_prop_defs
      or_mStateChangeFlags_def post_to_mSdkQueue_def TranslateSpinelRole_def
      SPINEL_NET_ROLE_CHILD_def SPINEL_NET_ROLE_ROUTER_def OT_CHANGED_THREAD_ROLE_def)

theorem ReceiveControlFrame_posts_state_change_once_witness:
  "count_list (sdk_queue_events (ReceiveControlFrame example_platform 0x80
       SPINEL_CMD_PROP_VALUE_IS SPINEL_PROP_NET_ROLE [2] initial_thci)) sStateChangeEvent = 1
   \<and> mStateChangeFlags (gTHCINCPContext (StateChangeEventHandler
        (ReceiveControlFrame example_platform 0x80
           SPINEL_CMD_PROP_VALUE_IS SPINEL_PROP_NET_ROLE [2] initial_thci))) = 0
   \<and> upcalls (StateChangeEventHandler
        (ReceiveControlFrame example_platform 0x80
           SPINEL_CMD_PROP_VALUE_IS SPINEL_PROP_NET_ROLE [2] initial_thci))
       = [StateChangeCallback OT_CHANGED_THREAD_ROLE]"
proof -
  let ?s' = "ReceiveControlFrame example_platform 0x80
       SPINEL_CMD_PROP_VALUE_IS SPINEL_PROP_NET_ROLE [2] initial_thci"
  have q: "mSdkQueue (gTHCISDKContext initial_thci) \<noteq> None"
    by (simp add: initial_thci_def)
  have cb: "mStateChangeCallback (gTHCINCPContext ?s')"
    by (simp add: ReceiveControlFrame_role_example) (simp add: initial_thci_def)
  have f0: "mStateChangeFlags (gTHCINCPContext initial_thci) = 0"
    by (simp add: initial_thci_def initial_context_def)
  have f1: "mStateChangeFlags (gTHCINCPContext ?s') = 4"
    by (simp add: ReceiveControlFrame_role_example)
  have e0: "sdk_queue_events initial_thci = []"
    by (simp add: sdk_queue_events_def initial_thci_def)
  have u0: "upcalls ?s' = []"
    by (simp add: ReceiveControlFrame_role_example) (simp add: initial_thci_def)
  show ?thesis
    using ReceiveControlFrame_posts_state_change_once [OF q cb,
        of example_platform "0x80" SPINEL_CMD_PROP_VALUE_IS SPINEL_PROP_NET_ROLE "[2]"]
    by (simp add: f0 f1 e0 u0 OT_CHANGED_THREAD_ROLE_def)
qed

section \<open>Transaction matcher: which frame answers a request\<close>

lemma ReceiveControlFrame_uart [simp]:
  "uart (ReceiveControlFrame pf h cmd key args s) = uart s"
  by (simp add: ReceiveControlFrame_def Let_def split_beta split: option.splits bool.splits)

lemma ReceiveIp6Datagram_uart [simp]:
  "uart (ReceiveIp6Datagram pf cmd key buf s) = uart s"
  by (simp add: ReceiveIp6Datagram_def Let_def split_beta)

lemma SPINEL_HEADER_GET_TID_eq: "SPINEL_HEADER_GET_TID h = h AND 0x0f"
  by (simp add: SPINEL_HEADER_GET_TID_def)

lemma unpack_frame_cases:
  obtains n h c k a where "unpack_frame pf aBuf = (n, h, c, k, a)"
  by (metis prod_cases5)

lemma HandleFrame_no_response:
  assumes "request_pending tid cmd key (uart s)"
    and "\<not> spec_response_matches pf tid cmd key aBuf"
  shows "uart (HandleFrame pf aBuf s) = uart s"
proof -
  obtain n h c k a where u: "unpack_frame pf aBuf = (n, h, c, k, a)"
    by (rule unpack_frame_cases)
  from assms(2) have nm: "n = int (length aBuf) \<Longrightarrow>
      \<not> ((tid \<noteq> kDontCareTransactionId \<and> h AND 0x0f = tid)
         \<or> (tid = kDontCareTransactionId \<and> ucast cmd = c \<and> key = k))"
    by (simp add: spec_response_matches_def u)
  have p: "sProvideInternalResponse (uart s)" "sResponseTransactionId (uart s) = tid"
    "sResponseCommand (uart s) = cmd" "sResponseKey (uart s) = key"
    using assms(1) by (simp_all add: request_pending_def)
  show ?thesis
  proof (cases "n = int (length aBuf)")
    case False
    then show ?thesis by (simp add: HandleFrame_def u)
  next
    case True
    from nm [OF True] have "\<not> fst (CompareResponse h c k (uart s))"
      by (auto simp: CompareResponse_def p SPINEL_HEADER_GET_TID_eq)
    with True show ?thesis
      by (simp add: HandleFrame_def u)
  qed
qed

lemma HandleFrame_response:
  assumes "request_pending tid cmd key (uart s)"
    and "spec_response_matches pf tid cmd key aBuf"
  shows "uart (HandleFrame pf aBuf s) =
           (uart s)\<lparr>sResponseSuccess := spec_response_success pf cmd key aBuf,
                    sResponseReceived := True,
                    sResponseBuffer := frame_arguments pf aBuf\<rparr>"
proof -
  obtain n h c k a where u: "unpack_frame pf aBuf = (n, h, c, k, a)"
    by (rule unpack_frame_cases)
  from assms(2) have len: "n = int (length aBuf)"
    and m: "(tid \<noteq> kDontCareTransactionId \<and> h AND 0x0f = tid)
         \<or> (tid = kDontCareTransactionId \<and> ucast cmd = c \<and> key = k)"
    by (simp_all add: spec_response_matches_def u)
  have p: "sProvideInternalResponse (uart s)" "sResponseTransactionId (uart s) = tid"
    "sResponseCommand (uart s) = cmd" "sResponseKey (uart s) = key"
    "\<not> sResponseSuccess (uart s)"
    using assms(1) by (simp_all add: request_pending_def)
  have c1: "fst (CompareResponse h c k (uart s))"
    using m by (auto simp: CompareResponse_def p SPINEL_HEADER_GET_TID_eq)
  have c2: "snd (CompareResponse h c k (uart s))
              = (uart s)\<lparr>sResponseSuccess := (ucast cmd = c \<and> key = k)\<rparr>"
    using m p(5) by (auto simp: CompareResponse_def p(1-4) SPINEL_HEADER_GET_TID_eq)
  show ?thesis
    using len c1 p(1)
    by (simp add: HandleFrame_def u c2 spec_response_success_def frame_arguments_def Let_def)
qed

lemma recovery_budget_updates [simp]:
  "recovery_budget (s\<lparr>uart := u\<rparr>) = recovery_budget s"
  "recovery_budget (s\<lparr>upcalls := up\<rparr>) = recovery_budget s"
  "recovery_budget (s\<lparr>mCallbackContent := cc\<rparr>) = recovery_budget s"
  by (simp_all add: recovery_budget_def recovery_events_def sdk_queue_events_def)

lemma recovery_budget_cong:
  "mModuleState (gTHCINCPContext s') = mModuleState (gTHCINCPContext s) \<Longrightarrow>
   mSdkQueue (gTHCISDKContext s') = mSdkQueue (gTHCISDKContext s) \<Longrightarrow>
   recovery_budget s' = recovery_budget s"
  by (simp add: recovery_budget_def recovery_events_def sdk_queue_events_def)

lemma recovery_budget_post:
  "ev \<noteq> sNCPRecoveryEvent \<Longrightarrow> recovery_budget (post_to_mSdkQueue ev s) = recovery_budget s"
  by (simp add: recovery_budget_def recovery_events_def sdk_queue_events_post del: not_None_eq)

lemma recovery_budget_thciInitiateNCPRecovery [simp]:
  "recovery_budget (thciInitiateNCPRecovery s) = recovery_budget s"
  by (simp add: recovery_budget_def recovery_events_def thciInitiateNCPRecovery_events
      del: not_None_eq)
     (simp add: thciInitiateNCPRecovery_def Let_def del: not_None_eq)

lemma recovery_budget_HandleLastStatusUpdate [simp]:
  "recovery_budget (HandleLastStatusUpdate pf args s) = recovery_budget s"
proof -
  have "recovery_budget (s\<lparr>gTHCINCPContext := (gTHCINCPContext s)\<lparr>mLastStatus := x\<rparr>\<rparr>)
          = recovery_budget s" for x
    by (rule recovery_budget_cong) simp_all
  then show ?thesis
    by (simp add: HandleLastStatusUpdate_def Let_def split_beta)
qed

lemma recovery_budget_AllocateCallbackBuffer [simp]:
  "recovery_budget (snd (AllocateCallbackBuffer st s)) = recovery_budget s"
  by (rule recovery_budget_cong)
     (simp_all add: AllocateCallbackBuffer_def split: option.splits)

lemma recovery_budget_or_mStateChangeFlags [simp]:
  "recovery_budget (or_mStateChangeFlags f s) = recovery_budget s"
  by (rule recovery_budget_cong) (simp_all add: or_mStateChangeFlags_def)

lemma recovery_budget_role [simp]:
  "recovery_budget (s\<lparr>gTHCISDKContext := (gTHCISDKContext s)\<lparr>mDeviceRole := r\<rparr>\<rparr>)
     = recovery_budget s"
  by (rule recovery_budget_cong) simp_all

lemma recovery_budget_flags [simp]:
  "recovery_budget (s\<lparr>gTHCISDKContext := (gTHCISDKContext s)\<lparr>mSecurityFlags := f\<rparr>\<rparr>)
     = recovery_budget s"
  by (rule recovery_budget_cong) simp_all

lemma recovery_budget_prop_value_is_switch [simp]:
  "recovery_budget (snd (prop_value_is_switch pf key args s)) = recovery_budget s"
  by (simp add: prop_value_is_switch_def Let_def split_beta recovery_budget_post
      split: option.splits del: not_None_eq)

lemma recovery_budget_ReceiveControlFrame [simp]:
  "recovery_budget (ReceiveControlFrame pf h cmd key args s) = recovery_budget s"
  by (simp add: ReceiveControlFrame_def Let_def split_beta recovery_budget_post
      split: option.splits bool.splits del: not_None_eq)

lemma recovery_budget_ReceiveIp6Datagram [simp]:
  "recovery_budget (ReceiveIp6Datagram pf cmd key buf s) = recovery_budget s"
  by (simp add: ReceiveIp6Datagram_def Let_def split_beta)

lemma recovery_budget_HandleFrame [simp]:
  "recovery_budget (HandleFrame pf aBuf s) = recovery_budget s"
  by (simp add: HandleFrame_def Let_def split_beta)

lemma recovery_budget_HandleError [simp]:
  "recovery_budget (HandleError s) = recovery_budget s"
  by (simp add: HandleError_def)

lemma recovery_budget_Decode [simp]:
  "recovery_budget (Decode pf e s) = recovery_budget s"
  by (cases e) simp_all

lemma recovery_budget_UartRxFifoProcess [simp]:
  "recovery_budget (UartRxFifoProcess pf es s) = recovery_budget s"
  by (induction es arbitrary: s) simp_all

lemma recovery_budget_PostRxDoneEventToSdkQueue [simp]:
  "recovery_budget (PostRxDoneEventToSdkQueue b s) = recovery_budget s"
  by (simp add: PostRxDoneEventToSdkQueue_def Let_def recovery_budget_post del: not_None_eq)

lemma recovery_budget_wait_on_response_queue [simp]:
  "recovery_budget (snd (snd (wait_on_response_queue pf rx s))) = recovery_budget s"
  by (induction pf rx s rule: wait_on_response_queue.induct) (simp_all add: Let_def)

lemma recovery_budget_wait_polling [simp]:
  "recovery_budget (snd (snd (wait_polling pf n rx s))) = recovery_budget s"
  by (induction pf n rx s rule: wait_polling.induct) (simp_all add: Let_def)

lemma request_pending_posted [simp]:
  "request_pending tid cmd key (u\<lparr>sRxEventPostedToResponseQueue := x\<rparr>)
     = request_pending tid cmd key u"
  by (simp add: request_pending_def)

lemma Decode_no_response:
  assumes "request_pending tid cmd key (uart s)" and "no_response pf tid cmd key e"
  shows "uart (Decode pf e s) = uart s"
  using assms by (cases e) (simp_all add: HandleFrame_no_response)

lemma UartRxFifoProcess_received:
  "sResponseReceived (uart s) \<Longrightarrow> UartRxFifoProcess pf es s = s"
  by (cases es) simp_all

lemma UartRxFifoProcess_no_response:
  assumes "request_pending tid cmd key (uart s)"
    and "list_all (no_response pf tid cmd key) es"
  shows "uart (UartRxFifoProcess pf es s) = uart s"
  using assms
proof (induction es arbitrary: s)
  case Nil
  then show ?case by simp
next
  case (Cons e es)
  from Cons.prems have u: "uart (Decode pf e s) = uart s"
    by (simp add: Decode_no_response)
  with Cons.prems have "uart (UartRxFifoProcess pf es (Decode pf e s)) = uart (Decode pf e s)"
    by (intro Cons.IH) simp_all
  with u Cons.prems(1) show ?case
    by (simp add: request_pending_def)
qed

lemma UartRxFifoProcess_response:
  assumes "request_pending tid cmd key (uart s)"
    and "list_all (no_response pf tid cmd key) es1"
    and "spec_response_matches pf tid cmd key aBuf"
  shows "uart (UartRxFifoProcess pf (es1 @ FrameDecoded aBuf # es2) s) =
           (uart s)\<lparr>sResponseSuccess := spec_response_success pf cmd key aBuf,
                    sResponseReceived := True,
                    sResponseBuffer := frame_arguments pf aBuf\<rparr>"
  using assms(1,2)
proof (induction es1 arbitrary: s)
  case Nil
  have "sResponseReceived (uart (HandleFrame pf aBuf s))"
    by (simp add: HandleFrame_response [OF Nil(1) assms(3)])
  then have "UartRxFifoProcess pf es2 (HandleFrame pf aBuf s) = HandleFrame pf aBuf s"
    by (rule UartRxFifoProcess_received)
  with Nil(1) show ?case
    by (simp add: HandleFrame_response [OF Nil(1) assms(3)] request_pending_def)
next
  case (Cons e es)
  from Cons.prems have u: "uart (Decode pf e s) = uart s"
    by (simp add: Decode_no_response)
  with Cons.prems have "uart (UartRxFifoProcess pf (es @ FrameDecoded aBuf # es2) (Decode pf e s))
      = (uart (Decode pf e s))\<lparr>sResponseSuccess := spec_response_success pf cmd key aBuf,
                    sResponseReceived := True,
                    sResponseBuffer := frame_arguments pf aBuf\<rparr>"
    by (intro Cons.IH) simp_all
  with u Cons.prems(1) show ?case
    by (simp add: request_pending_def)
qed


lemma wait_on_response_queue_response:
  assumes "request_pending tid cmd key (uart s)"
    and "list_all (\<lambda>b. list_all (no_response pf tid cmd key) (snd b)) pre"
    and "list_all (no_response pf tid cmd key) es1"
    and "spec_response_matches pf tid cmd key aBuf"
  shows "fst (wait_on_response_queue pf (pre @ (ev, es1 @ FrameDecoded aBuf # es2) # post) s)
           = (if spec_response_success pf cmd key aBuf then OT_ERROR_NONE else OT_ERROR_FAILED)
       \<and> fst (snd (wait_on_response_queue pf (pre @ (ev, es1 @ FrameDecoded aBuf # es2) # post) s))
           = Some (frame_arguments pf aBuf)
       \<and> sResponseReceived (uart (snd (snd
             (wait_on_response_queue pf (pre @ (ev, es1 @ FrameDecoded aBuf # es2) # post) s))))"
  using assms(1,2)
proof (induction pre arbitrary: s)
  case Nil
  let ?s1 = "if ev then s\<lparr>uart := (uart s)\<lparr>sRxEventPostedToResponseQueue := 0\<rparr>\<rparr> else s"
  have p1: "request_pending tid cmd key (uart ?s1)"
    using Nil(1) by simp
  note U = UartRxFifoProcess_response [OF p1 assms(3,4), of es2]
  show ?case
    by (simp add: Let_def U)
next
  case (Cons b pre)
  obtain ev' fifo where b: "b = (ev', fifo)" by (cases b)
  let ?s1 = "if ev' then s\<lparr>uart := (uart s)\<lparr>sRxEventPostedToResponseQueue := 0\<rparr>\<rparr> else s"
  let ?s2 = "UartRxFifoProcess pf fifo ?s1"
  let ?rx = "pre @ (ev, es1 @ FrameDecoded aBuf # es2) # post"
  have p1: "request_pending tid cmd key (uart ?s1)"
    using Cons.prems(1) by simp
  have nf: "list_all (no_response pf tid cmd key) fifo"
    and nrest: "list_all (\<lambda>b. list_all (no_response pf tid cmd key) (snd b)) pre"
    using Cons.prems(2) b by simp_all
  have u2: "uart ?s2 = uart ?s1"
    by (rule UartRxFifoProcess_no_response [OF p1 nf])
  with p1 have p2: "request_pending tid cmd key (uart ?s2)" by simp
  then have nr: "\<not> sResponseReceived (uart ?s2)" by (simp add: request_pending_def)
  have "wait_on_response_queue pf ((b # pre) @ (ev, es1 @ FrameDecoded aBuf # es2) # post) s
          = wait_on_response_queue pf ?rx ?s2"
    using nr by (simp add: b Let_def)
  moreover have "fst (wait_on_response_queue pf ?rx ?s2)
           = (if spec_response_success pf cmd key aBuf then OT_ERROR_NONE else OT_ERROR_FAILED)
       \<and> fst (snd (wait_on_response_queue pf ?rx ?s2)) = Some (frame_arguments pf aBuf)
       \<and> sResponseReceived (uart (snd (snd (wait_on_response_queue pf ?rx ?s2))))"
    by (rule Cons.IH [OF p2 nrest])
  ultimately show ?case by simp
qed

lemma wait_polling_response:
  assumes "request_pending tid cmd key (uart s)"
    and "list_all (\<lambda>b. list_all (no_response pf tid cmd key) (snd b)) pre"
    and "list_all (no_response pf tid cmd key) es1"
    and "spec_response_matches pf tid cmd key aBuf"
    and "length pre < n"
  shows "fst (wait_polling pf n (pre @ (ev, es1 @ FrameDecoded aBuf # es2) # post) s)
           = (if spec_response_success pf cmd key aBuf then OT_ERROR_NONE else OT_ERROR_FAILED)
       \<and> fst (snd (wait_polling pf n (pre @ (ev, es1 @ FrameDecoded aBuf # es2) # post) s))
           = Some (frame_arguments pf aBuf)"
  using assms(1,2,5)
proof (induction pre arbitrary: s n)
  case Nil
  then obtain m where n: "n = Suc m" by (cases n) auto
  note U = UartRxFifoProcess_response [OF Nil(1) assms(3,4), of es2]
  show ?case
    by (simp add: n Let_def U)
next
  case (Cons b pre)
  then obtain m where n: "n = Suc m" and m: "length pre < m" by (cases n) auto
  obtain ev' fifo where b: "b = (ev', fifo)" by (cases b)
  let ?s2 = "if fifo \<noteq> [] then UartRxFifoProcess pf fifo s else s"
  let ?rx = "pre @ (ev, es1 @ FrameDecoded aBuf # es2) # post"
  have nf: "list_all (no_response pf tid cmd key) fifo"
    and nrest: "list_all (\<lambda>b. list_all (no_response pf tid cmd key) (snd b)) pre"
    using Cons.prems(2) b by simp_all
  have u2: "uart ?s2 = uart s"
    using UartRxFifoProcess_no_response [OF Cons.prems(1) nf] by simp
  with Cons.prems(1) have p2: "request_pending tid cmd key (uart ?s2)" by simp
  then have nr: "\<not> sResponseReceived (uart ?s2)" by (simp add: request_pending_def)
  have "wait_polling pf n ((b # pre) @ (ev, es1 @ FrameDecoded aBuf # es2) # post) s
          = wait_polling pf m ?rx ?s2"
    using nr by (simp add: b n Let_def)
  moreover have "fst (wait_polling pf m ?rx ?s2)
           = (if spec_response_success pf cmd key aBuf then OT_ERROR_NONE else OT_ERROR_FAILED)
       \<and> fst (snd (wait_polling pf m ?rx ?s2)) = Some (frame_arguments pf aBuf)"
    by (rule Cons.IH [OF p2 nrest m])
  ultimately show ?case by simp
qed

lemma request_pending_registered:
  "\<not> sDecodeFailure u \<Longrightarrow>
     request_pending tid cmd key
       (u\<lparr>sResponseTransactionId := tid, sResponseCommand := cmd, sResponseKey := key,
          sResponseSuccess := False, sResponseReceived := False,
          sProvideInternalResponse := True\<rparr>)"
  by (simp add: request_pending_def)

lemma PostRxDoneEventToSdkQueue_received [simp]:
  "sResponseReceived (uart (PostRxDoneEventToSdkQueue b s)) = sResponseReceived (uart s)"
  by (simp add: PostRxDoneEventToSdkQueue_def Let_def del: not_None_eq)





lemma thciUartWaitForResponseInternal_response:
  assumes "\<not> sDecodeFailure (uart s)"
    and "sResponseQueueHandle (uart s) \<or> length pre < 11"
    and "list_all (\<lambda>b. list_all (no_response pf tid cmd key) (snd b)) pre"
    and "list_all (no_response pf tid cmd key) es1"
    and "spec_response_matches pf tid cmd key aBuf"
  shows "fst (thciUartWaitForResponseInternal pf avoid tid cmd key
                (pre @ (ev, es1 @ FrameDecoded aBuf # es2) # post) leftover s)
           = (if spec_response_success pf cmd key aBuf then OT_ERROR_NONE else OT_ERROR_FAILED)
       \<and> fst (snd (thciUartWaitForResponseInternal pf avoid tid cmd key
                (pre @ (ev, es1 @ FrameDecoded aBuf # es2) # post) leftover s))
           = Some (frame_arguments pf aBuf)"
proof -
  let ?s0 = "s\<lparr>uart := (uart s)
                          \<lparr>sResponseTransactionId := tid,
                           sResponseCommand := cmd,
                           sResponseKey := key,
                           sResponseSuccess := False,
                           sResponseReceived := False,
                           sProvideInternalResponse := True\<rparr>\<rparr>"
  let ?rx = "pre @ (ev, es1 @ FrameDecoded aBuf # es2) # post"
  have p0: "request_pending tid cmd key (uart ?s0)"
    using assms(1) by (simp add: request_pending_registered)
  show ?thesis
  proof (cases "sResponseQueueHandle (uart s)")
    case True
    note Q = wait_on_response_queue_response [OF p0 assms(3,4,5), of ev es2 post]
    show ?thesis
      using assms(1) True Q
      by (simp add: thciUartWaitForResponseInternal_def Let_def split_beta)
  next
    case False
    with assms(2) have "length pre < 11" by simp
    note Q = wait_polling_response [OF p0 assms(3,4,5) this, of ev es2 post]
    have eleven: "MAX_NCP_APP_RESPONSE_TIME_MSEC div 300 + 1 = 11"
      "Suc (MAX_NCP_APP_RESPONSE_TIME_MSEC div 300) = 11"
      by (simp_all add: MAX_NCP_APP_RESPONSE_TIME_MSEC_def)
    show ?thesis
      using assms(1) False Q
      by (simp add: thciUartWaitForResponseInternal_def Let_def split_beta eleven
          del: wait_polling.simps)
  qed
qed


text \<open>
  C1.  Let a frame parse into header, command, key and arguments.  While a request with
  identifier \<open>tid\<close> and expected pair \<open>(cmd, key)\<close> is pending, \<open>HandleFrame\<close> takes the
  frame as the response iff \<open>tid\<close> is not the don't-care identifier and the low four bits
  of the header equal \<open>tid\<close>, or \<open>tid\<close> is the don't-care identifier and command and key
  are the expected pair.  When the wait meets such a frame, after frames that are no
  response, it returns with the arguments of that frame: as a failure
  (\<open>OT_ERROR_FAILED\<close>) when the identifier matched but command or key differ, as a success
  (\<open>OT_ERROR_NONE\<close>) when command and key are the expected pair.  This holds with a
  response queue, and without one when the frame arrives within the 11 polls.
\<close>

theorem response_accepted_iff_matching:
  assumes "unpack_frame pf aBuf = (int (length aBuf), header, command, k, argPtr)"
  shows "(request_pending tid cmd key (uart s) \<longrightarrow>
            (sResponseReceived (uart (HandleFrame pf aBuf s))
             \<longleftrightarrow> (tid \<noteq> kDontCareTransactionId \<and> header AND 0x0f = tid)
                 \<or> (tid = kDontCareTransactionId \<and> ucast cmd = command \<and> key = k)))
     \<and> (\<not> sDecodeFailure (uart s0)
          \<and> (sResponseQueueHandle (uart s0) \<or> length pre < 11)
          \<and> list_all (\<lambda>b. list_all (no_response pf tid cmd key) (snd b)) pre
          \<and> list_all (no_response pf tid cmd key) es1
          \<and> tid \<noteq> kDontCareTransactionId \<and> header AND 0x0f = tid
          \<and> \<not> (ucast cmd = command \<and> key = k)
         \<longrightarrow> fst (thciUartWaitForResponseInternal pf avoid tid cmd key
                    (pre @ (ev, es1 @ FrameDecoded aBuf # es2) # post) leftover s0)
               = OT_ERROR_FAILED
             \<and> fst (snd (thciUartWaitForResponseInternal pf avoid tid cmd key
                    (pre @ (ev, es1 @ FrameDecoded aBuf # es2) # post) leftover s0))
               = Some argPtr)
     \<and> (\<not> sDecodeFailure (uart s0)
          \<and> (sResponseQueueHandle (uart s0) \<or> length pre < 11)
          \<and> list_all (\<lambda>b. list_all (no_response pf tid cmd key) (snd b)) pre
          \<and> list_all (no_response pf tid cmd key) es1
          \<and> ((tid \<noteq> kDontCareTransactionId \<and> header AND 0x0f = tid)
              \<or> tid = kDontCareTransactionId)
          \<and> ucast cmd = command \<and> key = k
         \<longrightarrow> fst (thciUartWaitForResponseInternal pf avoid tid cmd key
                    (pre @ (ev, es1 @ FrameDecoded aBuf # es2) # post) leftover s0)
               = OT_ERROR_NONE
             \<and> fst (snd (thciUartWaitForResponseInternal pf avoid tid cmd key
                    (pre @ (ev, es1 @ FrameDecoded aBuf # es2) # post) leftover s0))
               = Some argPtr)"
proof -
  have m: "spec_response_matches pf tid cmd key aBuf
             \<longleftrightarrow> (tid \<noteq> kDontCareTransactionId \<and> header AND 0x0f = tid)
                 \<or> (tid = kDontCareTransactionId \<and> ucast cmd = command \<and> key = k)"
    by (simp add: spec_response_matches_def assms)
  have sc: "spec_response_success pf cmd key aBuf \<longleftrightarrow> ucast cmd = command \<and> key = k"
    by (simp add: spec_response_success_def assms)
  have ar: "frame_arguments pf aBuf = argPtr"
    by (simp add: frame_arguments_def assms)
  have one: "request_pending tid cmd key (uart s) \<longrightarrow>
            (sResponseReceived (uart (HandleFrame pf aBuf s))
             \<longleftrightarrow> spec_response_matches pf tid cmd key aBuf)"
  proof
    assume p: "request_pending tid cmd key (uart s)"
    show "sResponseReceived (uart (HandleFrame pf aBuf s))
             \<longleftrightarrow> spec_response_matches pf tid cmd key aBuf"
    proof (cases "spec_response_matches pf tid cmd key aBuf")
      case True
      then show ?thesis by (simp add: HandleFrame_response [OF p True])
    next
      case False
      with p show ?thesis
        by (simp add: HandleFrame_no_response [OF p False] request_pending_def)
    qed
  qed
  have two: "\<not> sDecodeFailure (uart s0)
          \<and> (sResponseQueueHandle (uart s0) \<or> length pre < 11)
          \<and> list_all (\<lambda>b. list_all (no_response pf tid cmd key) (snd b)) pre
          \<and> list_all (no_response pf tid cmd key) es1
          \<and> spec_response_matches pf tid cmd key aBuf
         \<longrightarrow> fst (thciUartWaitForResponseInternal pf avoid tid cmd key
                    (pre @ (ev, es1 @ FrameDecoded aBuf # es2) # post) leftover s0)
               = (if spec_response_success pf cmd key aBuf then OT_ERROR_NONE
                  else OT_ERROR_FAILED)
             \<and> fst (snd (thciUartWaitForResponseInternal pf avoid tid cmd key
                    (pre @ (ev, es1 @ FrameDecoded aBuf # es2) # post) leftover s0))
               = Some (frame_arguments pf aBuf)"
    using thciUartWaitForResponseInternal_response
      [of s0 pre pf tid cmd key es1 aBuf avoid ev es2 post leftover]
    by blast
  show ?thesis
    using one two unfolding m sc ar by auto
qed

lemma example_frames:
  "unpack_frame example_platform [0x82, 6, 0, 3] = (4, 0x82, 6, 0, [3])"
  "unpack_frame example_platform [0x80, 6, 0x43, 2] = (4, 0x80, 6, 0x43, [2])"
  by (simp_all add: example_platform_def)

lemma example_role_frame_no_response:
  "no_response example_platform 2 6 2 (FrameDecoded [0x80, 6, 0x43, 2])"
  by (simp add: spec_response_matches_def example_frames kDontCareTransactionId_def)

theorem response_accepted_iff_matching_witness:
  "sResponseReceived (uart (HandleFrame example_platform [0x82, 6, 0, 3]
      (initial_thci\<lparr>uart := (uart initial_thci)
         \<lparr>sProvideInternalResponse := True, sResponseTransactionId := 2,
          sResponseCommand := 6, sResponseKey := 2\<rparr>\<rparr>)))
   \<and> fst (thciUartWaitForResponseInternal example_platform False 2 6 2
          ([(True, [FrameDecoded [0x80, 6, 0x43, 2]])]
             @ (True, [] @ FrameDecoded [0x82, 6, 0, 3] # []) # [])
          False initial_thci) = OT_ERROR_FAILED
   \<and> fst (snd (thciUartWaitForResponseInternal example_platform False 2 6 2
          ([(True, [FrameDecoded [0x80, 6, 0x43, 2]])]
             @ (True, [] @ FrameDecoded [0x82, 6, 0, 3] # []) # [])
          False initial_thci)) = Some [3]"
proof -
  let ?s = "initial_thci\<lparr>uart := (uart initial_thci)
         \<lparr>sProvideInternalResponse := True, sResponseTransactionId := 2,
          sResponseCommand := 6, sResponseKey := 2\<rparr>\<rparr>"
  have u: "unpack_frame example_platform [0x82, 6, 0, 3]
             = (int (length [0x82, 6, 0, 3 :: byte]), 0x82, 6, 0, [3])"
    by (simp add: example_frames)
  note W = response_accepted_iff_matching [OF u, where tid = 2 and cmd = 6 and key = 2
      and s = ?s and ?s0.0 = initial_thci
      and pre = "[(True, [FrameDecoded [0x80, 6, 0x43, 2]])]"
      and ?es1.0 = "[]" and ?es2.0 = "[]" and post = "[]" and ev = True
      and avoid = False and leftover = False]
  have p: "request_pending 2 6 2 (uart ?s)"
    by (simp add: request_pending_def initial_thci_def)
  have i: "\<not> sDecodeFailure (uart initial_thci)" "sResponseQueueHandle (uart initial_thci)"
    by (simp_all add: initial_thci_def)
  have w1: "sResponseReceived (uart (HandleFrame example_platform [0x82, 6, 0, 3] ?s))"
    using W [THEN conjunct1] p by (simp add: kDontCareTransactionId_def)
  have w2: "fst (thciUartWaitForResponseInternal example_platform False 2 6 2
          ([(True, [FrameDecoded [0x80, 6, 0x43, 2]])]
             @ (True, [] @ FrameDecoded [0x82, 6, 0, 3] # []) # [])
          False initial_thci) = OT_ERROR_FAILED
   \<and> fst (snd (thciUartWaitForResponseInternal example_platform False 2 6 2
          ([(True, [FrameDecoded [0x80, 6, 0x43, 2]])]
             @ (True, [] @ FrameDecoded [0x82, 6, 0, 3] # []) # [])
          False initial_thci)) = Some [3]"
  proof (rule W [THEN conjunct2, THEN conjunct1, THEN mp])
    show "\<not> sDecodeFailure (uart initial_thci)
      \<and> (sResponseQueueHandle (uart initial_thci)
          \<or> length [(True, [FrameDecoded [0x80, 6, 0x43, 2]])] < 11)
      \<and> list_all (\<lambda>b. list_all (no_response example_platform 2 6 2) (snd b))
           [(True, [FrameDecoded [0x80, 6, 0x43, 2]])]
      \<and> list_all (no_response example_platform 2 6 2) []
      \<and> (2 :: 8 word) \<noteq> kDontCareTransactionId \<and> (0x82 :: 8 word) AND 0x0f = 2
      \<and> \<not> (ucast (6 :: 8 word) = (6 :: 32 word) \<and> (2 :: 32 word) = 0)"
      using i example_role_frame_no_response
      by (simp add: kDontCareTransactionId_def)
  qed
  show ?thesis
    using w1 w2 by (rule conjI)
qed





section \<open>The NCP version string: bounded and terminated\<close>

lemma store_version_string_terminated:
  assumes "aLength \<noteq> 0"
  shows "min (strlen version) (aLength - 1) < aLength"
    and "store_version_string version aLength aString (min (strlen version) (aLength - 1)) = 0"
    and "i < min (strlen version) (aLength - 1)
           \<Longrightarrow> store_version_string version aLength aString i = version ! i"
    and "min (strlen version) (aLength - 1) < i
           \<Longrightarrow> store_version_string version aLength aString i = aString i"
proof -
  have n: "(if aLength < strlen version + 1 then aLength - 1 else strlen version)
             = min (strlen version) (aLength - 1)"
    using assms by (auto simp: min_def)
  have eq: "store_version_string version aLength aString
              = (memcpy aString version (min (strlen version) (aLength - 1)))
                  (min (strlen version) (aLength - 1) := 0)"
    by (simp only: store_version_string_def Let_def n)
  show "min (strlen version) (aLength - 1) < aLength"
    using assms by (auto simp: min_def)
  show "store_version_string version aLength aString (min (strlen version) (aLength - 1)) = 0"
    by (simp only: eq fun_upd_same)
  show "store_version_string version aLength aString i = version ! i"
    if "i < min (strlen version) (aLength - 1)"
    using that by (auto simp: eq memcpy_def)
  show "store_version_string version aLength aString i = aString i"
    if "min (strlen version) (aLength - 1) < i"
    using that by (auto simp: eq memcpy_def)
qed

lemma thciGetVersionString_success:
  assumes "thciGetVersionString pf aString aLength tx rx leftover s = (OT_ERROR_NONE, out, s')"
  shows "aLength \<noteq> 0 \<and> (\<exists>mem version. aString = Some mem
            \<and> received_version pf tx rx leftover s = Some version
            \<and> out = Some (store_version_string version aLength mem))"
  using assms
  by (auto simp: thciGetVersionString_def received_version_def Let_def split_beta
      split: if_splits option.splits)

text \<open>
  C10.  A call of \<open>thciGetVersionString\<close> with a non-NULL buffer that returns
  \<open>OT_ERROR_NONE\<close> had a non-zero length and got a version string from the NCP; with
  \<open>n\<close> the smaller of the length of that string and \<open>aLength - 1\<close>, the buffer afterwards
  holds the first \<open>n\<close> bytes of the string, a NUL at index \<open>n < aLength\<close>, and what it held
  before at every index above \<open>n\<close>, so nothing at or beyond \<open>aLength\<close> is written.  When
  the buffer is smaller than the string plus its terminator, \<open>n\<close> is \<open>aLength - 1\<close>: the
  string is cut to fit.
\<close>

theorem thciGetVersionString_bounded_terminated:
  assumes "thciGetVersionString pf (Some mem) aLength tx rx leftover s
             = (OT_ERROR_NONE, out, s')"
  shows "aLength \<noteq> 0
     \<and> (\<exists>version mem'.
           received_version pf tx rx leftover s = Some version
           \<and> out = Some mem'
           \<and> min (strlen version) (aLength - 1) < aLength
           \<and> mem' (min (strlen version) (aLength - 1)) = 0
           \<and> (\<forall>i < min (strlen version) (aLength - 1). mem' i = version ! i)
           \<and> (\<forall>i > min (strlen version) (aLength - 1). mem' i = mem i)
           \<and> (aLength < strlen version + 1
                \<longrightarrow> min (strlen version) (aLength - 1) = aLength - 1))"
proof -
  from thciGetVersionString_success [OF assms]
  obtain version where nz: "aLength \<noteq> 0"
    and v: "received_version pf tx rx leftover s = Some version"
    and o: "out = Some (store_version_string version aLength mem)"
    by auto
  have t1: "min (strlen version) (aLength - 1) < aLength"
    by (rule store_version_string_terminated(1) [OF nz])
  have t2: "store_version_string version aLength mem (min (strlen version) (aLength - 1)) = 0"
    by (rule store_version_string_terminated(2) [OF nz])
  have t3: "\<forall>i < min (strlen version) (aLength - 1).
              store_version_string version aLength mem i = version ! i"
    using store_version_string_terminated(3) [OF nz] by blast
  have t4: "\<forall>i > min (strlen version) (aLength - 1).
              store_version_string version aLength mem i = mem i"
    using store_version_string_terminated(4) [OF nz] by blast
  have t5: "aLength < strlen version + 1
              \<longrightarrow> min (strlen version) (aLength - 1) = aLength - 1"
    by (auto simp: min_def)
  from nz v o t1 t2 t3 t4 t5 show ?thesis
    by blast
qed

text \<open>
  An instance: the NCP answers \<open>OT/1.0\<close> to a caller with a buffer of 4 bytes filled with
  \<open>0xff\<close>; the caller gets \<open>OT/\<close>, the terminator, and the bytes behind the buffer as they
  were.
\<close>

lemma version_frame:
  "unpack_frame example_platform [0x82, 6, 2, 0x4f, 0x54, 0x2f, 0x31, 0x2e, 0x30, 0]
     = (10, 0x82, 6, 2, [0x4f, 0x54, 0x2f, 0x31, 0x2e, 0x30, 0])"
  by (simp add: example_platform_def)

lemma version_utf8:
  "unpack_utf8 example_platform [0x4f, 0x54, 0x2f, 0x31, 0x2e, 0x30, 0]
     = (7, Some [0x4f, 0x54, 0x2f, 0x31, 0x2e, 0x30, 0])"
  by (simp add: example_platform_def)

lemma version_tid:
  "GetNewTransactionId (gTHCINCPContext initial_thci)
     = (2, (gTHCINCPContext initial_thci)\<lparr>mTransactionId := 2\<rparr>)"
  by (simp add: GetNewTransactionId_def initial_thci_def initial_context_def Let_def
      kMaxTransactionId_def kDontCareTransactionId_def)

lemma version_wait:
  "fst (thciUartWaitForResponse example_platform 2 6 2
          [(True, [FrameDecoded [0x82, 6, 2, 0x4f, 0x54, 0x2f, 0x31, 0x2e, 0x30, 0]])] False
          (initial_thci\<lparr>gTHCINCPContext := c\<rparr>)) = OT_ERROR_NONE
   \<and> fst (snd (thciUartWaitForResponse example_platform 2 6 2
          [(True, [FrameDecoded [0x82, 6, 2, 0x4f, 0x54, 0x2f, 0x31, 0x2e, 0x30, 0]])] False
          (initial_thci\<lparr>gTHCINCPContext := c\<rparr>)))
       = Some [0x4f, 0x54, 0x2f, 0x31, 0x2e, 0x30, 0]"
proof -
  have a: "\<not> sDecodeFailure (uart (initial_thci\<lparr>gTHCINCPContext := c\<rparr>))"
    "sResponseQueueHandle (uart (initial_thci\<lparr>gTHCINCPContext := c\<rparr>))
       \<or> length ([] :: (bool \<times> rx_event list) list) < 11"
    by (simp_all add: initial_thci_def)
  have m: "spec_response_matches example_platform 2 6 2
             [0x82, 6, 2, 0x4f, 0x54, 0x2f, 0x31, 0x2e, 0x30, 0]"
    by (simp add: spec_response_matches_def version_frame kDontCareTransactionId_def)
  have n: "list_all (\<lambda>b. list_all (no_response example_platform 2 6 2) (snd b)) []"
    "list_all (no_response example_platform 2 6 2) []"
    by simp_all
  from thciUartWaitForResponseInternal_response [OF a n m,
      where avoid = False and ev = True and ?es2.0 = "[]" and post = "[]" and leftover = False]
  show ?thesis
    by (simp add: thciUartWaitForResponse_def spec_response_success_def frame_arguments_def
        version_frame)
qed

lemma version_call:
  "fst (thciGetVersionString example_platform (Some (\<lambda>i. 0xff)) 4 ([], OT_ERROR_NONE)
     [(True, [FrameDecoded [0x82, 6, 2, 0x4f, 0x54, 0x2f, 0x31, 0x2e, 0x30, 0]])] False
     initial_thci) = OT_ERROR_NONE"
  "received_version example_platform ([], OT_ERROR_NONE)
     [(True, [FrameDecoded [0x82, 6, 2, 0x4f, 0x54, 0x2f, 0x31, 0x2e, 0x30, 0]])] False
     initial_thci = Some [0x4f, 0x54, 0x2f, 0x31, 0x2e, 0x30, 0]"
proof -
  have st: "mModuleState ((gTHCINCPContext initial_thci)\<lparr>mTransactionId := 2\<rparr>)
              = kModuleStateInitialized"
    by (simp add: initial_thci_def initial_context_def)
  have c: "ucast SPINEL_CMD_PROP_VALUE_IS = (6 :: 8 word)"
    "SPINEL_PROP_NCP_VERSION = 2"
    by (simp_all add: SPINEL_CMD_PROP_VALUE_IS_def SPINEL_PROP_NCP_VERSION_def)
  show "fst (thciGetVersionString example_platform (Some (\<lambda>i. 0xff)) 4 ([], OT_ERROR_NONE)
     [(True, [FrameDecoded [0x82, 6, 2, 0x4f, 0x54, 0x2f, 0x31, 0x2e, 0x30, 0]])] False
     initial_thci) = OT_ERROR_NONE"
    by (simp add: thciGetVersionString_def version_tid st c thciUartFrameSend_def split_beta
        Let_def version_wait version_utf8)
  show "received_version example_platform ([], OT_ERROR_NONE)
     [(True, [FrameDecoded [0x82, 6, 2, 0x4f, 0x54, 0x2f, 0x31, 0x2e, 0x30, 0]])] False
     initial_thci = Some [0x4f, 0x54, 0x2f, 0x31, 0x2e, 0x30, 0]"
    by (simp add: received_version_def version_tid c thciUartFrameSend_def split_beta
        Let_def version_wait version_utf8)
qed

theorem thciGetVersionString_bounded_terminated_witness:
  "fst (thciGetVersionString example_platform (Some (\<lambda>i. 0xff)) 4 ([], OT_ERROR_NONE)
     [(True, [FrameDecoded [0x82, 6, 2, 0x4f, 0x54, 0x2f, 0x31, 0x2e, 0x30, 0]])] False
     initial_thci) = OT_ERROR_NONE
   \<and> map (the (fst (snd (thciGetVersionString example_platform (Some (\<lambda>i. 0xff)) 4
        ([], OT_ERROR_NONE)
        [(True, [FrameDecoded [0x82, 6, 2, 0x4f, 0x54, 0x2f, 0x31, 0x2e, 0x30, 0]])] False
        initial_thci)))) [0, 1, 2, 3, 4, 5]
       = [0x4f, 0x54, 0x2f, 0, 0xff, 0xff]"
proof -
  let ?call = "thciGetVersionString example_platform (Some (\<lambda>i. 0xff)) 4 ([], OT_ERROR_NONE)
     [(True, [FrameDecoded [0x82, 6, 2, 0x4f, 0x54, 0x2f, 0x31, 0x2e, 0x30, 0]])] False
     initial_thci"
  have ev: "?call = (OT_ERROR_NONE, fst (snd ?call), snd (snd ?call))"
    using version_call(1) by (simp add: prod_eq_iff)
  from thciGetVersionString_bounded_terminated [OF ev]
  obtain version mem' where v: "received_version example_platform ([], OT_ERROR_NONE)
        [(True, [FrameDecoded [0x82, 6, 2, 0x4f, 0x54, 0x2f, 0x31, 0x2e, 0x30, 0]])] False
        initial_thci = Some version"
    and o: "fst (snd ?call) = Some mem'"
    and z: "mem' (min (strlen version) (4 - 1)) = 0"
    and lo: "\<forall>i < min (strlen version) (4 - 1). mem' i = version ! i"
    and hi: "\<forall>i > min (strlen version) (4 - 1). mem' i = (0xff :: byte)"
    by blast
  from v have version: "version = [0x4f, 0x54, 0x2f, 0x31, 0x2e, 0x30, 0]"
    by (simp add: version_call(2))
  have n: "min (strlen version) (4 - 1) = 3"
    by (simp add: version strlen_def)
  have "mem' 0 = 0x4f" "mem' 1 = 0x54" "mem' 2 = 0x2f" "mem' 3 = 0" "mem' 4 = 0xff"
    "mem' 5 = 0xff"
    using z lo hi unfolding n by (simp_all add: version)
  with version_call(1) o show ?thesis
    by simp
qed

section \<open>Outbound datagrams: the MTU check at submission\<close>

lemma aligned_length_1400: "aligned_length 1400 = 1412"
  by (simp add: aligned_length_def sizeof_thci_message_t_def)

lemma allocate_message_initial:
  "allocate_message False 1400 [] (gTHCINCPContext initial_thci)
     = (Some \<lparr>mAddress = 0, mBuffer = [], mOffset = 0, mLength = 0, mTotalLength = 1412, mFlags = 0\<rparr>,
        (gTHCINCPContext initial_thci)\<lparr>mMessageRingHead := 1412, mMessageRingTail := 0\<rparr>)"
proof -
  have e: "mMessageLock (gTHCINCPContext initial_thci) = 0"
    "mMessageRingHead (gTHCINCPContext initial_thci)
       = mMessageRingTail (gTHCINCPContext initial_thci)"
    by (simp_all add: initial_thci_def initial_context_def)
  show ?thesis
    by (simp add: NewMessage_empty [OF e] aligned_length_1400 ring_size init_message_def)
qed

lemma copy_chunks_chain:
  "copy_chunks (Some (Pbuf (replicate 700 0) 700 1400 (Some (Pbuf (replicate 700 0) 700 700 None))))
     1400 (Some EINVAL) \<lparr>mAddress = 0, mBuffer = [], mOffset = 0, mLength = 0, mTotalLength = 1412, mFlags = 0\<rparr>
     = (True, None, 0, \<lparr>mAddress = 0, mBuffer = replicate 1400 0, mOffset = 0, mLength = 1400,
          mTotalLength = 1412, mFlags = 0\<rparr>)"
  by (simp add: AppendMessage_def sizeof_thci_message_t_def Let_def
      replicate_add [symmetric])

lemma CreateTHCIMessageFromPbuf_chain:
  "CreateTHCIMessageFromPbuf
     (Pbuf (replicate 700 0) 700 1400 (Some (Pbuf (replicate 700 0) 700 700 None))) []
     initial_thci
     = (None,
        Some (\<lparr>mAddress = 0, mBuffer = replicate 1400 0, mOffset = 0, mLength = 1400,
          mTotalLength = 1412, mFlags = 0\<rparr>),
        initial_thci\<lparr>gTHCINCPContext :=
          (gTHCINCPContext initial_thci)\<lparr>mMessageRingHead := 1412, mMessageRingTail := 0\<rparr>\<rparr>)"
proof -
  have f: "mSecurityFlags (gTHCISDKContext initial_thci) = 0"
    by (simp add: initial_thci_def)
  have j: "\<not> SendProvisionalJoinResponseInsecurely (gTHCISDKContext initial_thci)"
    by (simp add: SendProvisionalJoinResponseInsecurely_def NeedToOpenInsecureSourcePort_def
        initial_thci_def
        THCI_SECURITY_FLAG_THREAD_STARTED_def THCI_SECURITY_FLAG_INSECURE_PORTS_ENABLED_def
        THCI_SECURITY_FLAG_INSECURE_SOURCE_PORT_def
        THCI_SECURITY_FLAG_SECURE_MSG_RXD_ON_INSECURE_PORT_def)
  show ?thesis
    by (simp add: CreateTHCIMessageFromPbuf_def f allocate_message_initial copy_chunks_chain j
        ResetOffset_def Let_def del: allocate_message.simps copy_chunks.simps)
qed

text \<open>
  C9 fails in the code.  \<open>LwIPOutputIP6\<close> compares \<open>pbuf->len\<close>, the length of the first
  segment, with the payload MTU, while \<open>CreateTHCIMessageFromPbuf\<close> allocates and copies
  \<open>pbuf->tot_len\<close> bytes.  A datagram of 1400 bytes in two segments of 700 bytes is
  accepted: the call returns \<open>ERR_OK\<close>, a message of 1412 bytes is created in the store
  (the head moves from 0 to 1412), a message of length 1400 is enqueued, and the pump event
  is posted.
\<close>

theorem LwIPOutputIP6_accepts_chained_oversize:
  "NL_THCI_PAYLOAD_MTU
     < unat (pbuf_tot_len
         (Pbuf (replicate 700 0) 700 1400 (Some (Pbuf (replicate 700 0) 700 700 None))))
   \<and> fst (LwIPOutputIP6 1
        (Pbuf (replicate 700 0) 700 1400 (Some (Pbuf (replicate 700 0) 700 700 None))) []
        initial_thci) = ERR_OK
   \<and> mMessageRingHead (gTHCINCPContext (snd (LwIPOutputIP6 1
        (Pbuf (replicate 700 0) 700 1400 (Some (Pbuf (replicate 700 0) 700 700 None))) []
        initial_thci))) = 1412
   \<and> map_option mLength (fst (DequeueMessage (gTHCISDKContext (snd (LwIPOutputIP6 1
        (Pbuf (replicate 700 0) 700 1400 (Some (Pbuf (replicate 700 0) 700 700 None))) []
        initial_thci))))) = Some 1400
   \<and> sdk_queue_events (snd (LwIPOutputIP6 1
        (Pbuf (replicate 700 0) 700 1400 (Some (Pbuf (replicate 700 0) 700 700 None))) []
        initial_thci)) = [sOutgoingIPPacketEvent]"
proof -
  have n: "mNetif_THREAD (gTHCISDKContext (initial_thci\<lparr>gTHCINCPContext := c\<rparr>)) = 1" for c
    by (simp add: initial_thci_def)
  have r: "LwIPOutputIP6 1
        (Pbuf (replicate 700 0) 700 1400 (Some (Pbuf (replicate 700 0) 700 700 None))) []
        initial_thci
     = (ERR_OK,
        post_to_mSdkQueue sOutgoingIPPacketEvent
          (initial_thci
             \<lparr>gTHCINCPContext :=
                (gTHCINCPContext initial_thci)\<lparr>mMessageRingHead := 1412, mMessageRingTail := 0\<rparr>,
              gTHCISDKContext :=
                (gTHCISDKContext initial_thci)
                  \<lparr>mMessageQueue :=
                     \<lparr>mHead = 1, mTail = 0,
                      mQueue = (replicate 16 None)
                        [0 := Some (\<lparr>mAddress = 0, mBuffer = replicate 1400 0, mOffset = 0, mLength = 1400,
          mTotalLength = 1412, mFlags = 0\<rparr>)]\<rparr>\<rparr>,
              sOutgoingIPPacketEventPosted := 1\<rparr>))"
    by (simp add: LwIPOutputIP6_def NL_THCI_PAYLOAD_MTU_def CreateTHCIMessageFromPbuf_chain n
        Let_def)
       (simp add: EnqueueMessage_def THCI_CONFIG_MESSAGE_QUEUE_SIZE_def Let_def initial_thci_def)
  show ?thesis
    unfolding r
    by (simp add: NL_THCI_PAYLOAD_MTU_def sdk_queue_events_post DequeueMessage_def
        initial_thci_def sdk_queue_events_def post_to_mSdkQueue_def)
qed

section \<open>The pump event: at most one in the mailbox\<close>

lemma pump_inv_initial: "pump_inv initial_pump"
  by (simp add: pump_inv_def initial_pump_def in_flight_def resident_def)

lemma pump_inv_step:
  assumes "pump_inv s" "pump_step a s = Some s'"
  shows "pump_inv s'"
proof (cases a)
  case DispatchEvent
  with assms show ?thesis
    by (cases "taskMailbox s")
       (auto simp: pump_inv_def in_flight_def resident_def split: if_splits)
qed (use assms in \<open>auto simp: pump_inv_def in_flight_def resident_def sync_fetch_and_or_def
       split: if_splits\<close>)

lemma pump_inv_run:
  "pump_inv s \<Longrightarrow> run_pump as s = Some s' \<Longrightarrow> pump_inv s'"
proof (induction as arbitrary: s)
  case Nil
  then show ?case by simp
next
  case (Cons a as)
  then show ?case
    by (auto split: option.splits dest: pump_inv_step)
qed

text \<open>
  C5, as stated, fails.  When \<open>LwIPOutputIP6\<close> has executed \<open>__sync_fetch_and_or\<close> on a zero
  flag and not yet \<open>nl_eventqueue_post_event\<close>, the flag is set and no pump event is
  resident in the mailbox.
\<close>

theorem pump_flag_without_event_counterexample:
  "run_pump [LwIPOutputIP6_fetch_and_or] initial_pump
     = Some \<lparr>eventPosted = 1, taskMailbox = [], lwip_pc = PosterWon, stall_pc = PosterIdle,
             driver_pc = DriverIdle\<rparr>"
  by (simp add: initial_pump_def sync_fetch_and_or_def)

text \<open>
  C5, amended.  In every state reached by interleaving the posting statements of the three
  paths, the dispatch and the handler: at most one pump event is resident in the mailbox;
  a resident pump event means the flag is set; and the flag is set exactly when a pump event
  is resident, or a poster that found the flag zero has not yet posted, or the handler has
  been dispatched and has not yet cleared the flag.
\<close>

theorem pump_event_at_most_once:
  assumes "run_pump as initial_pump = Some s"
  shows "resident s \<le> 1
     \<and> (resident s = 1 \<longrightarrow> eventPosted s \<noteq> 0)
     \<and> (eventPosted s \<noteq> 0) =
         (resident s = 1 \<or> lwip_pc s = PosterWon \<or> stall_pc s = PosterWon
          \<or> driver_pc s = HandlerWon \<or> driver_pc s = HandlerEntered)"
proof -
  have "pump_inv s"
    using pump_inv_initial assms by (rule pump_inv_run)
  then show ?thesis
    by (auto simp: pump_inv_def in_flight_def split: if_splits)
qed

text \<open>
  An instance: the IP-stack task posts, the stall release finds the flag set, the driver task
  dispatches the event and clears the flag, the IP-stack task wins the flag again, the
  handler finds it set at its end, and the IP-stack task posts.
\<close>

theorem pump_event_at_most_once_witness:
  "run_pump [LwIPOutputIP6_fetch_and_or, LwIPOutputIP6_post_event, StallRelease_fetch_and_or,
             DispatchEvent, Handler_clear, LwIPOutputIP6_fetch_and_or, Handler_fetch_and_or,
             LwIPOutputIP6_post_event]
     initial_pump
     = Some \<lparr>eventPosted = 1, taskMailbox = [sOutgoingIPPacketEvent], lwip_pc = PosterIdle,
             stall_pc = PosterIdle, driver_pc = DriverIdle\<rparr>
   \<and> resident \<lparr>eventPosted = 1, taskMailbox = [sOutgoingIPPacketEvent], lwip_pc = PosterIdle,
             stall_pc = PosterIdle, driver_pc = DriverIdle\<rparr> \<le> 1
   \<and> eventPosted \<lparr>eventPosted = 1, taskMailbox = [sOutgoingIPPacketEvent],
             lwip_pc = PosterIdle, stall_pc = PosterIdle, driver_pc = DriverIdle\<rparr> \<noteq> 0"
proof -
  have ev: "run_pump [LwIPOutputIP6_fetch_and_or, LwIPOutputIP6_post_event,
             StallRelease_fetch_and_or, DispatchEvent, Handler_clear,
             LwIPOutputIP6_fetch_and_or, Handler_fetch_and_or, LwIPOutputIP6_post_event]
     initial_pump
     = Some \<lparr>eventPosted = 1, taskMailbox = [sOutgoingIPPacketEvent], lwip_pc = PosterIdle,
             stall_pc = PosterIdle, driver_pc = DriverIdle\<rparr>"
    by (simp add: initial_pump_def sync_fetch_and_or_def)
  have r: "resident \<lparr>eventPosted = 1, taskMailbox = [sOutgoingIPPacketEvent],
             lwip_pc = PosterIdle, stall_pc = PosterIdle, driver_pc = DriverIdle\<rparr> = 1"
    by (simp add: resident_def)
  note W = pump_event_at_most_once [OF ev]
  show ?thesis
    by (intro conjI ev W [THEN conjunct1] W [THEN conjunct2, THEN conjunct1, THEN mp, OF r])
qed

end
